theory Spec2Isabelle
  imports Main "HOL-Library.Word"
begin

unbundle bit_operations_syntax

section \<open>Keys, payloads and result codes (store.hpp)\<close>

text \<open>
  \<^verbatim>\<open>typedef uint32_t mcflags_t; typedef uint32_t exptime_t; typedef uint64_t cas_t;\<close>
\<close>

type_synonym mcflags_t = "32 word"
type_synonym exptime_t = "32 word"
type_synonym cas_t = "64 word"

text \<open>
  \<^verbatim>\<open>struct store_key_t { uint8_t size; char contents[0]; ... }\<close>: a length byte followed by
  the bytes of the key. The field \<open>size\<close> is called \<open>key_size\<close> here (\<open>size\<close> is a
  constant of HOL). \<open>contents\<close> is the memory behind the length byte, as far as the
  buffer that holds the key reaches (\<open>store_key_and_buffer_t\<close> gives it
  \<open>MAX_KEY_SIZE\<close> bytes).
\<close>

record store_key_t =
  key_size :: "8 word"
  contents :: "char list"

text \<open>
  A data provider is held through \<^verbatim>\<open>unique_ptr_t<data_provider_t>\<close>; the model
  identifies the provider with the bytes it yields.
\<close>

type_synonym data_provider_t = "char list"

text \<open>The result codes, as store.hpp declares them.\<close>

record get_result_t =
  buffer :: "char list option"   \<comment> \<open>\<open>NULL\<close> (\<open>None\<close>) means not found\<close>
  cb :: nat                      \<comment> \<open>the done-callback, as a handle\<close>
  flags :: mcflags_t
  gr_cas :: cas_t

datatype set_result_t =
  sr_stored | sr_not_stored | sr_not_found | sr_exists | sr_too_large
  | sr_data_provider_failed | sr_not_allowed

datatype idr_result_t = idr_success | idr_not_found | idr_not_numeric | idr_not_allowed

record incr_decr_result_t =
  res :: idr_result_t
  new_value :: "64 word"

datatype append_prepend_result_t =
  apr_success | apr_too_large | apr_not_found | apr_data_provider_failed | apr_not_allowed

datatype delete_result_t = dr_deleted | dr_not_found | dr_not_allowed

section \<open>Mutations (store.cc)\<close>

text \<open>
  Modelled from the spec: the declarations of the five mutation structs, of their policy
  and kind enumerations, of \<open>mutation_t\<close>, \<open>mutation_result_t\<close>, \<open>castime_t\<close> and
  \<open>repli_timestamp_t\<close> are in headers of this repository that are not part of the
  sources at hand. The fields are the ones store.cc assigns and reads; the enumerations
  are the ones the data model of the specification lists.
\<close>

datatype add_policy_t = add_policy_if_not_exists | add_policy_always
datatype replace_policy_t = replace_policy_if_exists | replace_policy_always
datatype incr_decr_kind_t = incr_decr_INCR | incr_decr_DECR
datatype append_prepend_kind_t = append_prepend_APPEND | append_prepend_PREPEND

record get_cas_mutation_t =
  gc_key :: store_key_t

record sarc_mutation_t =
  sarc_key :: store_key_t
  sarc_data :: data_provider_t
  sarc_flags :: mcflags_t
  sarc_exptime :: exptime_t
  sarc_add_policy :: add_policy_t
  sarc_replace_policy :: replace_policy_t
  sarc_old_cas :: cas_t

record delete_mutation_t =
  del_key :: store_key_t
  dont_put_in_delete_queue :: bool

record incr_decr_mutation_t =
  idm_kind :: incr_decr_kind_t
  idm_key :: store_key_t
  idm_amount :: "64 word"

record append_prepend_mutation_t =
  apm_kind :: append_prepend_kind_t
  apm_key :: store_key_t
  apm_data :: data_provider_t

text \<open>
  \<open>mutation_t\<close> wraps a \<open>boost::variant\<close> over the five structs; each struct converts
  implicitly to a \<open>mutation_t\<close>, which the constructors below stand for.
\<close>

datatype mutation_t =
  Get_cas_mutation get_cas_mutation_t
  | Sarc_mutation sarc_mutation_t
  | Delete_mutation delete_mutation_t
  | Incr_decr_mutation incr_decr_mutation_t
  | Append_prepend_mutation append_prepend_mutation_t

text \<open>
  \<open>mutation_get_key_functor_t\<close> has one \<open>operator()\<close> per alternative, and
  \<open>mutation_t::get_key\<close> applies it with \<open>boost::apply_visitor\<close>.
\<close>

fun get_key :: "mutation_t \<Rightarrow> store_key_t" where
  "get_key (Get_cas_mutation m) = gc_key m"
| "get_key (Sarc_mutation m) = sarc_key m"
| "get_key (Delete_mutation m) = del_key m"
| "get_key (Incr_decr_mutation m) = idm_key m"
| "get_key (Append_prepend_mutation m) = apm_key m"


section \<open>Results of a mutation\<close>

text \<open>
  \<open>repli_timestamp_t\<close> has one field \<open>time\<close>, an unsigned 32-bit count: the
  assertion commented out in \<open>set_timestamp\<close> formats it with \<open>%u\<close>, and
  \<open>make_castime\<close> shifts it into the upper half of a 64-bit cas.
  \<open>repli_timestamp_t::distant_past\<close> is the least timestamp, and timestamps compare
  by \<open>time\<close>.
\<close>

record repli_timestamp_t =
  time :: "32 word"

definition distant_past :: repli_timestamp_t where
  "distant_past = \<lparr>time = 0\<rparr>"

definition repli_less :: "repli_timestamp_t \<Rightarrow> repli_timestamp_t \<Rightarrow> bool" where
  "repli_less a b = (time a < time b)"

text \<open>\<open>std::max(a, b)\<close> is \<open>(a < b) ? b : a\<close>.\<close>

definition std_max :: "repli_timestamp_t \<Rightarrow> repli_timestamp_t \<Rightarrow> repli_timestamp_t" where
  "std_max a b = (if repli_less a b then b else a)"

text \<open>\<open>castime_t(cas, timestamp)\<close>: the pair assigned to a mutation.\<close>

record castime_t =
  cas :: cas_t
  castime_timestamp :: repli_timestamp_t

text \<open>
  \<open>mutation_result_t\<close>: a variant over the per-kind results in the field \<open>result\<close>,
  together with the castime the mutation was given.
\<close>

datatype result_variant_t =
  Get_result get_result_t
  | Set_result set_result_t
  | Delete_result delete_result_t
  | Incr_decr_result incr_decr_result_t
  | Append_prepend_result append_prepend_result_t

record mutation_result_t =
  result :: result_variant_t
  assigned :: castime_t

text \<open>
  What can go wrong: \<open>assert_thread()\<close> fails when the caller is not on the home thread
  of the object, \<open>boost::get<T>\<close> throws \<open>bad_get\<close> when the variant holds another
  alternative, and a \<open>memcpy\<close> whose byte count runs far beyond its source faults.
\<close>

datatype error = Wrong_thread | Bad_get | Memory_fault

type_synonym sequence_group_t = nat
type_synonym order_token_t = nat

section \<open>The convenience methods of \<open>set_store_interface_t\<close> (store.cc)\<close>

text \<open>
  \<open>boost::get<T>(v)\<close> on a variant, one function per requested alternative.
\<close>

definition boost_get_get_result :: "result_variant_t \<Rightarrow> error + get_result_t" where
  "boost_get_get_result v = (case v of Get_result r \<Rightarrow> Inr r | _ \<Rightarrow> Inl Bad_get)"

definition boost_get_set_result :: "result_variant_t \<Rightarrow> error + set_result_t" where
  "boost_get_set_result v = (case v of Set_result r \<Rightarrow> Inr r | _ \<Rightarrow> Inl Bad_get)"

definition boost_get_delete_result :: "result_variant_t \<Rightarrow> error + delete_result_t" where
  "boost_get_delete_result v = (case v of Delete_result r \<Rightarrow> Inr r | _ \<Rightarrow> Inl Bad_get)"

definition boost_get_incr_decr_result :: "result_variant_t \<Rightarrow> error + incr_decr_result_t" where
  "boost_get_incr_decr_result v = (case v of Incr_decr_result r \<Rightarrow> Inr r | _ \<Rightarrow> Inl Bad_get)"

definition boost_get_append_prepend_result ::
  "result_variant_t \<Rightarrow> error + append_prepend_result_t" where
  "boost_get_append_prepend_result v =
     (case v of Append_prepend_result r \<Rightarrow> Inr r | _ \<Rightarrow> Inl Bad_get)"

text \<open>
  \<open>change\<close> is virtual in \<open>set_store_interface_t\<close>: the methods take it as the
  parameter \<open>chg\<close>, a function of the sequence group, the mutation, the order token and
  the state \<open>'st\<close> of the store behind the interface, which returns the result and the
  new state, or fails. \<open>get_from_result\<close> is the common tail
  \<^verbatim>\<open>return boost::get<T>(change(seq_group, mut, token).result);\<close>
\<close>

text \<open>
  \<open>store_key_t\<close> declares \<open>char contents[0]\<close>, so \<open>sizeof(store_key_t)\<close> covers the
  length byte alone, and an assignment \<open>mut.key = key\<close> copies the length byte and none
  of the bytes behind it: the copy has the size of the key and no contents of its own.
\<close>

definition copy_key :: "store_key_t \<Rightarrow> store_key_t" where
  "copy_key key = \<lparr>key_size = key_size key, contents = []\<rparr>"

type_synonym 'st change_t =
  "sequence_group_t \<Rightarrow> mutation_t \<Rightarrow> order_token_t \<Rightarrow> 'st \<Rightarrow> error + (mutation_result_t \<times> 'st)"

definition get_from_result ::
  "(result_variant_t \<Rightarrow> error + 'r) \<Rightarrow> error + (mutation_result_t \<times> 'st) \<Rightarrow> error + ('r \<times> 'st)" where
  "get_from_result bget x =
     (case x of
        Inl e \<Rightarrow> Inl e
      | Inr (r, st') \<Rightarrow> (case bget (result r) of Inl e \<Rightarrow> Inl e | Inr v \<Rightarrow> Inr (v, st')))"

definition get_cas ::
  "'st change_t \<Rightarrow> sequence_group_t \<Rightarrow> store_key_t \<Rightarrow> order_token_t \<Rightarrow> 'st
     \<Rightarrow> error + (get_result_t \<times> 'st)" where
  "get_cas chg seq_group key token st =
     (let mut = \<lparr>gc_key = copy_key key\<rparr>
      in get_from_result boost_get_get_result (chg seq_group (Get_cas_mutation mut) token st))"

definition sarc ::
  "'st change_t \<Rightarrow> sequence_group_t \<Rightarrow> store_key_t \<Rightarrow> data_provider_t \<Rightarrow> mcflags_t \<Rightarrow> exptime_t
     \<Rightarrow> add_policy_t \<Rightarrow> replace_policy_t \<Rightarrow> cas_t \<Rightarrow> order_token_t \<Rightarrow> 'st
     \<Rightarrow> error + (set_result_t \<times> 'st)" where
  "sarc chg seq_group key data flgs exptime add_policy replace_policy old_cas token st =
     (let mut = \<lparr>sarc_key = copy_key key, sarc_data = data, sarc_flags = flgs, sarc_exptime = exptime,
                 sarc_add_policy = add_policy, sarc_replace_policy = replace_policy,
                 sarc_old_cas = old_cas\<rparr>
      in get_from_result boost_get_set_result (chg seq_group (Sarc_mutation mut) token st))"

definition incr_decr ::
  "'st change_t \<Rightarrow> sequence_group_t \<Rightarrow> incr_decr_kind_t \<Rightarrow> store_key_t \<Rightarrow> 64 word
     \<Rightarrow> order_token_t \<Rightarrow> 'st \<Rightarrow> error + (incr_decr_result_t \<times> 'st)" where
  "incr_decr chg seq_group kind key amount token st =
     (let mut = \<lparr>idm_kind = kind, idm_key = copy_key key, idm_amount = amount\<rparr>
      in get_from_result boost_get_incr_decr_result (chg seq_group (Incr_decr_mutation mut) token st))"

definition append_prepend ::
  "'st change_t \<Rightarrow> sequence_group_t \<Rightarrow> append_prepend_kind_t \<Rightarrow> store_key_t \<Rightarrow> data_provider_t
     \<Rightarrow> order_token_t \<Rightarrow> 'st \<Rightarrow> error + (append_prepend_result_t \<times> 'st)" where
  "append_prepend chg seq_group kind key data token st =
     (let mut = \<lparr>apm_kind = kind, apm_key = copy_key key, apm_data = data\<rparr>
      in get_from_result boost_get_append_prepend_result
           (chg seq_group (Append_prepend_mutation mut) token st))"

definition delete_key ::
  "'st change_t \<Rightarrow> sequence_group_t \<Rightarrow> store_key_t \<Rightarrow> order_token_t \<Rightarrow> bool \<Rightarrow> 'st
     \<Rightarrow> error + (delete_result_t \<times> 'st)" where
  "delete_key chg seq_group key token dont_put st =
     (let mut = \<lparr>del_key = copy_key key, dont_put_in_delete_queue = dont_put\<rparr>
      in get_from_result boost_get_delete_result (chg seq_group (Delete_mutation mut) token st))"


section \<open>The timestamping layer (store.cc)\<close>

text \<open>
  \<open>timestamping_set_store_interface_t\<close> holds the counter \<open>cas_counter\<close> and the
  stored \<open>timestamp\<close>; \<open>home_thread\<close> is the thread \<open>assert_thread()\<close> compares the
  caller with. The counter is an unsigned integer whose width is fixed by the class
  declaration; the model takes the counter's type as the parameter \<open>'cnt\<close> and uses it
  at \<open>'c word\<close>, so that \<open>++cas_counter\<close> wraps at \<open>2 ^ LENGTH('c)\<close>. The target store
  the layer points to is passed separately (see \<open>change\<close>).
\<close>

record 'cnt timestamping_set_store_interface_t =
  home_thread :: nat
  cas_counter :: 'cnt
  timestamp :: repli_timestamp_t

text \<open>
  The constructor: \<open>cas_counter(0), timestamp(repli_timestamp_t::distant_past)\<close>;
  \<open>home\<close> is the thread the object is built on.
\<close>

definition timestamping_init :: "nat \<Rightarrow> ('c::len) word timestamping_set_store_interface_t" where
  "timestamping_init home = \<lparr>home_thread = home, cas_counter = 0, timestamp = distant_past\<rparr>"

text \<open>
  Modelled from the spec: \<open>assert_thread()\<close> is inherited from a mixin declared outside
  these sources. The layer fails when it is invoked from an execution context other than
  its own, which is fatal where the assertion is compiled in.
\<close>

definition assert_thread :: "nat \<Rightarrow> nat \<Rightarrow> error + unit" where
  "assert_thread home cur = (if cur = home then Inr () else Inl Wrong_thread)"

text \<open>
  \<^verbatim>\<open>cas_t cas = (uint64_t(timestamp.time) << 32) ^ uint64_t(++cas_counter);\<close>
  \<open>cur\<close> is the thread of the caller.
\<close>

definition make_castime ::
  "nat \<Rightarrow> ('c::len) word timestamping_set_store_interface_t
     \<Rightarrow> error + (castime_t \<times> 'c word timestamping_set_store_interface_t)" where
  "make_castime cur s =
     (case assert_thread (home_thread s) cur of
        Inl e \<Rightarrow> Inl e
      | Inr _ \<Rightarrow>
          (let c = cas_counter s + 1;
               cs = push_bit 32 (ucast (time (timestamp s)) :: 64 word) XOR (ucast c :: 64 word)
           in Inr (\<lparr>cas = cs, castime_timestamp = timestamp s\<rparr>, s\<lparr>cas_counter := c\<rparr>)))"

definition set_timestamp ::
  "nat \<Rightarrow> repli_timestamp_t \<Rightarrow> ('c::len) word timestamping_set_store_interface_t
     \<Rightarrow> error + 'c word timestamping_set_store_interface_t" where
  "set_timestamp cur ts s =
     (case assert_thread (home_thread s) cur of
        Inl e \<Rightarrow> Inl e
      | Inr _ \<Rightarrow> Inr (s\<lparr>timestamp := std_max (timestamp s) ts\<rparr>))"

text \<open>
  \<^verbatim>\<open>return target->change(seq_group, mutation, make_castime(), token);\<close>
  The target's \<open>change\<close> is virtual: it is the parameter \<open>target\<close>, a function on the
  state \<open>'sink\<close> of the target store.
\<close>

type_synonym 'sink target_t =
  "sequence_group_t \<Rightarrow> mutation_t \<Rightarrow> castime_t \<Rightarrow> order_token_t \<Rightarrow> 'sink
     \<Rightarrow> mutation_result_t \<times> 'sink"

definition change ::
  "'sink target_t \<Rightarrow> nat \<Rightarrow> sequence_group_t \<Rightarrow> mutation_t \<Rightarrow> order_token_t
     \<Rightarrow> ('c::len) word timestamping_set_store_interface_t \<times> 'sink
     \<Rightarrow> error + (mutation_result_t \<times> ('c word timestamping_set_store_interface_t \<times> 'sink))" where
  "change target cur seq_group mutation token st =
     (case assert_thread (home_thread (fst st)) cur of
        Inl e \<Rightarrow> Inl e
      | Inr _ \<Rightarrow>
          (case make_castime cur (fst st) of
             Inl e \<Rightarrow> Inl e
           | Inr (ct, s') \<Rightarrow>
               (case target seq_group mutation ct token (snd st) of
                  (r, sink') \<Rightarrow> Inr (r, (s', sink')))))"

text \<open>
  A run of the layer: the calls made on one instance, in order, each with the thread it
  is made on. \<open>run\<close> returns the castimes that the calls of \<open>make_castime\<close> returned,
  in call order, and the final state; a failed assertion ends the run.
\<close>

datatype call = Make_castime nat | Set_timestamp nat repli_timestamp_t

fun run ::
  "('c::len) word timestamping_set_store_interface_t \<Rightarrow> call list
     \<Rightarrow> error + (castime_t list \<times> 'c word timestamping_set_store_interface_t)" where
  "run s [] = Inr ([], s)"
| "run s (Make_castime cur # cs) =
     (case make_castime cur s of
        Inl e \<Rightarrow> Inl e
      | Inr (ct, s') \<Rightarrow>
          (case run s' cs of Inl e \<Rightarrow> Inl e | Inr (cts, s'') \<Rightarrow> Inr (ct # cts, s'')))"
| "run s (Set_timestamp cur ts # cs) =
     (case set_timestamp cur ts s of Inl e \<Rightarrow> Inl e | Inr s' \<Rightarrow> run s' cs)"

text \<open>
  The thread a call is made on, and the calls of a run that are calls of
  \<open>make_castime\<close>.
\<close>

fun call_thread :: "call \<Rightarrow> nat" where
  "call_thread (Make_castime cur) = cur"
| "call_thread (Set_timestamp cur ts) = cur"

fun is_make_castime :: "call \<Rightarrow> bool" where
  "is_make_castime (Make_castime cur) = True"
| "is_make_castime (Set_timestamp cur ts) = False"

text \<open>The castimes a run returned (none when an assertion failed).\<close>

definition castimes_of :: "error + (castime_t list \<times> 's) \<Rightarrow> castime_t list" where
  "castimes_of r = (case r of Inl e \<Rightarrow> [] | Inr (cts, s) \<Rightarrow> cts)"

section \<open>Building a key from a C string (store.hpp)\<close>

text \<open>
  \<^verbatim>\<open>
  inline bool str_to_key(char *str, store_key_t *buf) {
      int len = strlen(str);
      if (len <= MAX_KEY_SIZE) {
          memcpy(buf->contents, str, len);
          buf->size = (uint8_t) len;
          return true;
      } else {
          return false;
      }
  }\<close>
  \<open>str\<close> is the string without its terminating NUL, so \<open>strlen(str)\<close> is its length,
  a \<open>size_t\<close>. The assignment to \<open>int len\<close> keeps the low 32 bits, read as two's
  complement. \<open>memcpy\<close> takes the count as a \<open>size_t\<close> again: a negative \<open>len\<close> is a
  count beyond any string, and the copy faults; otherwise the first \<open>len\<close> bytes behind
  the length byte are overwritten and the rest of the memory there stays as it was. The
  cast to \<open>uint8_t\<close> keeps the low 8 bits. \<open>MAX_KEY_SIZE\<close> is a macro defined outside
  these sources and is a parameter here.
\<close>

definition str_to_key :: "nat \<Rightarrow> char list \<Rightarrow> store_key_t \<Rightarrow> error + (bool \<times> store_key_t)" where
  "str_to_key MAX_KEY_SIZE str buf =
     (let len = sint (word_of_nat (length str) :: 32 word)
      in if len \<le> int MAX_KEY_SIZE then
           (if len < 0 then Inl Memory_fault
            else Inr (True, \<lparr>key_size = word_of_int len,
                             contents = take (nat len) str @ drop (nat len) (contents buf)\<rparr>))
         else Inr (False, buf))"

text \<open>The bytes of a key: the first \<open>size\<close> bytes of its contents.\<close>

definition key_bytes :: "store_key_t \<Rightarrow> char list" where
  "key_bytes k = take (unat (key_size k)) (contents k)"

section \<open>Server shutdown (server/server.cc)\<close>

text \<open>
  Modelled from the spec: the thread pool and its message passing are part of the
  scheduling substrate, outside these sources. \<open>server_shutdown\<close> works on the
  interrupt message of the thread pool: as its comment says,
  \<open>thread_pool_t::set_interrupt_message(m)\<close> stores \<open>m\<close> and returns the message that
  was stored before (\<open>NULL\<close> is \<open>None\<close>); \<open>continue_on_thread(t, msg)\<close> returns true
  when the caller already runs on thread \<open>t\<close> and otherwise sends \<open>msg\<close> to thread
  \<open>t\<close> and returns false; \<open>call_later_on_this_thread(msg)\<close> queues \<open>msg\<close> on the
  caller's thread. The messages handed out are recorded in \<open>delivered\<close>, each with the
  thread it goes to.
\<close>

type_synonym thread_message_t = nat

record thread_pool_t =
  interrupt_message :: "thread_message_t option"
  num_threads :: int
  delivered :: "(int \<times> thread_message_t) list"

definition set_interrupt_message ::
  "thread_message_t option \<Rightarrow> thread_pool_t \<Rightarrow> thread_message_t option \<times> thread_pool_t" where
  "set_interrupt_message m p = (interrupt_message p, p\<lparr>interrupt_message := m\<rparr>)"

definition continue_on_thread ::
  "int \<Rightarrow> int \<Rightarrow> thread_message_t \<Rightarrow> thread_pool_t \<Rightarrow> bool \<times> thread_pool_t" where
  "continue_on_thread cur t msg p =
     (if t = cur then (True, p) else (False, p\<lparr>delivered := delivered p @ [(t, msg)]\<rparr>))"

definition call_later_on_this_thread :: "int \<Rightarrow> thread_message_t \<Rightarrow> thread_pool_t \<Rightarrow> thread_pool_t" where
  "call_later_on_this_thread cur msg p = p\<lparr>delivered := delivered p @ [(cur, msg)]\<rparr>"

text \<open>
  \<^verbatim>\<open>
  thread_message_t *old_interrupt_msg = thread_pool_t::set_interrupt_message(NULL);
  if (old_interrupt_msg) {
      if (continue_on_thread(get_num_threads()-1, old_interrupt_msg))
          call_later_on_this_thread(old_interrupt_msg);
  }\<close>
  \<open>cur\<close> is the thread the call is made on.
\<close>

definition server_shutdown :: "int \<Rightarrow> thread_pool_t \<Rightarrow> thread_pool_t" where
  "server_shutdown cur p =
     (case set_interrupt_message None p of
        (old_interrupt_msg, p1) \<Rightarrow>
          (case old_interrupt_msg of
             None \<Rightarrow> p1
           | Some msg \<Rightarrow>
               (case continue_on_thread cur (num_threads p1 - 1) msg p1 of
                  (True, p2) \<Rightarrow> call_later_on_this_thread cur msg p2
                | (False, p2) \<Rightarrow> p2)))"

text \<open>A sequence of shutdown requests, each with the thread it is made on.\<close>

fun shutdown_requests :: "int list \<Rightarrow> thread_pool_t \<Rightarrow> thread_pool_t" where
  "shutdown_requests [] p = p"
| "shutdown_requests (cur # curs) p = shutdown_requests curs (server_shutdown cur p)"

section \<open>Server startup (server/server.cc)\<close>

text \<open>
  The fields of \<open>cmd_config_t\<close> that \<open>server_main\<close> reads. \<open>db_filenames\<close> stands for
  the \<open>db_filename\<close> of each entry of \<open>store_dynamic_config.serializer_private\<close>, which
  \<open>server_main\<close> copies into a vector of that name; \<open>import_config_file\<close> is
  \<open>import_config.file\<close> and \<open>replication_config_active\<close> is \<open>replication_config.active\<close>.
\<close>

record cmd_config_t =
  db_filenames :: "string list"
  create_store :: bool
  force_create :: bool
  shutdown_after_creation :: bool
  import_config_file :: "string list"
  replication_config_active :: bool
  replication_master_active :: bool
  force_unslavify :: bool
  port :: nat
  replication_master_listen_port :: nat

text \<open>
  What \<open>server_main\<close> finds outside the process: which files exist
  (\<open>access(name, F_OK) == 0\<close>), the replication master id that the store on disk
  returns, and the ports that are taken. A listener on a taken port throws
  \<open>tcp_listener_t::address_in_use_exc_t\<close>, the exception \<open>server_main\<close> catches.
\<close>

record environment =
  file_exists :: "string \<Rightarrow> bool"
  stored_master_id :: "32 word"
  port_in_use :: "nat \<Rightarrow> bool"

text \<open>What \<open>server_main\<close> does to the stores, the network and the gates, in order.\<close>

datatype action =
    Log_disk_info
  | Create_store
  | Create_metadata_store
  | Open_metadata_store
  | Open_store
  | Get_replication_master_id
  | Set_replication_master_id "32 word"
  | Import_memcache string
  | Listen nat
  | Run_slave
  | Run_master nat
  | Open_gets
  | Open_sets
  | Close_sets
  | Close_gets
  | Wait_for_sigint
  | Log_address_in_use
  | Thread_pool_shutdown

text \<open>
  Modelled from the spec: \<open>fail_due_to_user_error\<close> is a macro defined outside these
  sources. It prints its message and aborts startup: the process ends there. The three
  calls in \<open>server_main\<close> are told apart by their message. \<open>status\<close> is how a block
  inside the \<open>try\<close> ends, \<open>outcome\<close> how \<open>server_main\<close> ends.
\<close>

datatype user_error =
  Overwrite_existing_file | Former_slave_as_master | Former_slave_as_standalone

datatype status = Done | Threw_address_in_use | Failed user_error

datatype outcome = Returned | Exited user_error

text \<open>
  The loop over \<open>db_filenames\<close> that sets \<open>any_exist\<close> and \<open>any_dontexist\<close>.
\<close>

fun check_files :: "(string \<Rightarrow> bool) \<Rightarrow> string list \<Rightarrow> bool \<times> bool \<Rightarrow> bool \<times> bool" where
  "check_files ex [] (any_exist, any_dontexist) = (any_exist, any_dontexist)"
| "check_files ex (f # fs) (any_exist, any_dontexist) =
     (if ex f then check_files ex fs (any_exist \<or> True, any_dontexist)
      else check_files ex fs (any_exist, any_dontexist \<or> True))"

text \<open>
  The three topologies. Each returns the actions performed and how the block ended.
  \<open>NOT_A_SLAVE\<close> is a constant defined outside these sources and is a parameter.
\<close>

definition slave_mode :: "cmd_config_t \<Rightarrow> environment \<Rightarrow> action list \<times> status" where
  "slave_mode cmd_config e =
     (if port_in_use e (port cmd_config) then ([], Threw_address_in_use)
      else ([Listen (port cmd_config), Run_slave, Wait_for_sigint], Done))"

definition master_mode :: "32 word \<Rightarrow> cmd_config_t \<Rightarrow> environment \<Rightarrow> action list \<times> status" where
  "master_mode NOT_A_SLAVE cmd_config e =
     (if port_in_use e (port cmd_config) then ([], Threw_address_in_use)
      else
        (let replication_master_id = stored_master_id e
         in if replication_master_id \<noteq> 0 \<and> replication_master_id \<noteq> NOT_A_SLAVE
               \<and> \<not> force_unslavify cmd_config
            then ([Listen (port cmd_config), Get_replication_master_id],
                  Failed Former_slave_as_master)
            else if port_in_use e (replication_master_listen_port cmd_config)
            then ([Listen (port cmd_config), Get_replication_master_id,
                   Set_replication_master_id NOT_A_SLAVE], Threw_address_in_use)
            else ([Listen (port cmd_config), Get_replication_master_id,
                   Set_replication_master_id NOT_A_SLAVE,
                   Run_master (replication_master_listen_port cmd_config),
                   Wait_for_sigint], Done)))"

definition standalone_mode :: "32 word \<Rightarrow> cmd_config_t \<Rightarrow> environment \<Rightarrow> action list \<times> status" where
  "standalone_mode NOT_A_SLAVE cmd_config e =
     (let replication_master_id = stored_master_id e
      in if replication_master_id \<noteq> 0 \<and> replication_master_id \<noteq> NOT_A_SLAVE
            \<and> \<not> force_unslavify cmd_config
         then ([Get_replication_master_id], Failed Former_slave_as_standalone)
         else if port_in_use e (port cmd_config)
         then ([Get_replication_master_id, Set_replication_master_id NOT_A_SLAVE,
                Open_gets, Open_sets, Close_sets, Close_gets], Threw_address_in_use)
         else ([Get_replication_master_id, Set_replication_master_id NOT_A_SLAVE,
                Open_gets, Open_sets, Listen (port cmd_config), Wait_for_sigint,
                Close_sets, Close_gets], Done))"

text \<open>
  The body of the \<open>try\<close> block once the overwrite check has passed: \<open>create\<close> is
  \<open>cmd_config->create_store\<close> after \<open>create_store |= any_dontexist\<close>.
\<close>

definition start_stores ::
  "32 word \<Rightarrow> cmd_config_t \<Rightarrow> bool \<Rightarrow> environment \<Rightarrow> action list \<times> status" where
  "start_stores NOT_A_SLAVE cmd_config create e =
     (let created = Log_disk_info # (if create then [Create_store, Create_metadata_store] else [])
      in if shutdown_after_creation cmd_config then (created, Done)
         else
           (let loaded = created @ [Open_metadata_store, Open_store]
            in if import_config_file cmd_config \<noteq> []
               then (loaded @ Set_replication_master_id NOT_A_SLAVE
                       # map Import_memcache (import_config_file cmd_config), Done)
               else
                 (case (if replication_config_active cmd_config then slave_mode cmd_config e
                        else if replication_master_active cmd_config
                        then master_mode NOT_A_SLAVE cmd_config e
                        else standalone_mode NOT_A_SLAVE cmd_config e) of
                    (acts, st) \<Rightarrow> (loaded @ acts, st))))"

text \<open>
  The check for overwriting and the automatic creation, from the loop over
  \<open>db_filenames\<close> to the call of \<open>fail_due_to_user_error\<close>: it raises the overwrite
  error, or goes on with \<open>cmd_config->create_store\<close> as it stands after
  \<open>create_store |= any_dontexist\<close>.
\<close>

definition overwrite_check :: "cmd_config_t \<Rightarrow> environment \<Rightarrow> user_error + bool" where
  "overwrite_check cmd_config e =
     (case check_files (file_exists e) (db_filenames cmd_config) (False, False) of
        (any_exist, any_dontexist) \<Rightarrow>
          (let create = (create_store cmd_config \<or> any_dontexist)
           in if any_exist \<and> create \<and> \<not> force_create cmd_config
              then Inl Overwrite_existing_file
              else Inr create))"

definition server_main :: "32 word \<Rightarrow> cmd_config_t \<Rightarrow> environment \<Rightarrow> action list \<times> outcome" where
  "server_main NOT_A_SLAVE cmd_config e =
     (case overwrite_check cmd_config e of
        Inl ue \<Rightarrow> ([], Exited ue)
      | Inr create \<Rightarrow>
          (case start_stores NOT_A_SLAVE cmd_config create e of
             (acts, Failed ue) \<Rightarrow> (acts, Exited ue)
           | (acts, Threw_address_in_use) \<Rightarrow>
               (acts @ [Log_address_in_use, Thread_pool_shutdown], Returned)
           | (acts, Done) \<Rightarrow> (acts @ [Thread_pool_shutdown], Returned)))"

section \<open>The gate of the gated stores\<close>

text \<open>
  Modelled from the spec: \<open>gated_get_store_t\<close>, \<open>gated_set_store_interface_t\<close> and their
  \<open>open_t\<close> are declared in \<open>server/gated_store.hpp\<close>, which is not among the sources;
  \<open>server_main\<close> only constructs them. The gate below follows the component design of
  the specification: a gate is \<open>CLOSED\<close> at first; \<open>enter()\<close> admits the caller and
  counts it when the gate is \<open>OPEN\<close> and fails with a gate-closed rejection when it is
  \<open>CLOSED\<close>; \<open>leave()\<close> takes the caller off the count and, when a close is pending and
  the count reaches zero, completes the close and releases the waiter; an open scope
  opens the gate, and its exit closes the gate and blocks until every operation in
  flight has left. The specification says nothing about \<open>leave()\<close> without a matching
  \<open>enter()\<close>, about opening a gate that is open or still draining, or about leaving a
  scope that was never entered: these have no successor state (\<open>None\<close>).
\<close>

datatype gate_state = CLOSED | OPEN

record gate_t =
  state :: gate_state
  in_flight :: nat
  close_pending :: bool

definition gate_init :: gate_t where
  "gate_init = \<lparr>state = CLOSED, in_flight = 0, close_pending = False\<rparr>"

datatype gate_event = Enter | Leave | Open_scope_begin | Open_scope_exit

datatype gate_response =
  Admitted | Gate_closed | Departed | Departed_and_released | Opened | Exit_blocked | Exit_completed

definition gate_step :: "gate_t \<Rightarrow> gate_event \<Rightarrow> (gate_response \<times> gate_t) option" where
  "gate_step g ev =
     (case ev of
        Enter \<Rightarrow>
          (if state g = OPEN then Some (Admitted, g\<lparr>in_flight := in_flight g + 1\<rparr>)
           else Some (Gate_closed, g))
      | Leave \<Rightarrow>
          (if in_flight g = 0 then None
           else if close_pending g \<and> in_flight g - 1 = 0
           then Some (Departed_and_released, g\<lparr>in_flight := 0, close_pending := False\<rparr>)
           else Some (Departed, g\<lparr>in_flight := in_flight g - 1\<rparr>))
      | Open_scope_begin \<Rightarrow>
          (if state g = CLOSED \<and> \<not> close_pending g then Some (Opened, g\<lparr>state := OPEN\<rparr>)
           else None)
      | Open_scope_exit \<Rightarrow>
          (if state g = OPEN
           then (if in_flight g = 0 then Some (Exit_completed, g\<lparr>state := CLOSED\<rparr>)
                 else Some (Exit_blocked, g\<lparr>state := CLOSED, close_pending := True\<rparr>))
           else None))"

text \<open>
  An interleaving of the calls of all parties is a list of events; \<open>gate_run\<close> returns
  the response to each event and the final gate.
\<close>

fun gate_run :: "gate_t \<Rightarrow> gate_event list \<Rightarrow> (gate_response list \<times> gate_t) option" where
  "gate_run g [] = Some ([], g)"
| "gate_run g (ev # evs) =
     (case gate_step g ev of
        None \<Rightarrow> None
      | Some (r, g1) \<Rightarrow>
          (case gate_run g1 evs of None \<Rightarrow> None | Some (rs, g2) \<Rightarrow> Some (r # rs, g2)))"

text \<open>
  The operations admitted and the operations that have left, counted in the responses;
  \<open>completes_exit\<close> holds of the responses with which the exit of an open scope
  completes: at once, or through the last \<open>leave()\<close>.
\<close>

definition admitted :: "gate_response list \<Rightarrow> nat" where
  "admitted rs = length (filter (\<lambda>r. r = Admitted) rs)"

definition has_left :: "gate_response list \<Rightarrow> nat" where
  "has_left rs = length (filter (\<lambda>r. r = Departed \<or> r = Departed_and_released) rs)"

definition completes_exit :: "gate_response \<Rightarrow> bool" where
  "completes_exit r = (r = Exit_completed \<or> r = Departed_and_released)"

section \<open>Properties of the timestamping layer\<close>

subsection \<open>The counter in the low bits of a cas\<close>

lemma take_bit_add_cancel:
  fixes a :: "'c::len word"
  assumes m: "m \<le> LENGTH('c)" and eq: "take_bit m (a + of_nat d) = take_bit m a" 
  shows "2 ^ m dvd d"
proof -
  from eq have "unat (take_bit m (a + of_nat d)) = unat (take_bit m a)" by simp
  then have "take_bit m (unat (a + of_nat d)) = take_bit m (unat a)"
    by (simp only: unsigned_take_bit_eq)
  moreover have "unat (a + of_nat d) = take_bit LENGTH('c) (unat a + d)"
    by (simp add: unat_word_ariths take_bit_eq_mod unat_of_nat mod_add_right_eq)
  ultimately have "take_bit m (unat a + d) = take_bit m (unat a)"
    using m by (simp add: min_def)
  then have "(unat a + d) mod 2 ^ m = unat a mod 2 ^ m"
    by (simp add: take_bit_eq_mod)
  then have "2 ^ m dvd (unat a + d) - unat a"
    by (subst (asm) mod_eq_dvd_iff_nat) simp_all
  then show ?thesis by simp
qed

lemma low_bits_cas:
  "n \<le> 32 \<Longrightarrow> take_bit n (push_bit 32 (x :: 64 word) XOR y) = take_bit n y"
  by (rule bit_eqI) (auto simp add: bit_simps)

lemma take_bit_ucast_eq:
  fixes a b :: "'c::len word"
  assumes "m \<le> 32" "take_bit m (ucast a :: 64 word) = take_bit m (ucast b)"
  shows "take_bit m a = take_bit m b"
proof (rule bit_eqI)
  fix n
  from assms(2) have "bit (take_bit m (ucast a :: 64 word)) n = bit (take_bit m (ucast b :: 64 word)) n" by simp
  with assms(1) show "bit (take_bit m a) n = bit (take_bit m b) n"
    by (auto simp add: bit_simps)
qed

text \<open>
  The \<open>k\<close>-th castime of a run carries the counter value \<open>cas_counter s + (k + 1)\<close>
  in its cas, whatever calls of \<open>set_timestamp\<close> lie in between.
\<close>

lemma run_nth:
  "run s cs = Inr (cts, s') \<Longrightarrow> k < length cts \<Longrightarrow>
     \<exists>t. cts ! k = \<lparr>cas = push_bit 32 (ucast (time t)) XOR ucast (cas_counter s + of_nat (Suc k)),
                       castime_timestamp = t\<rparr>"
proof (induction cs arbitrary: s cts k)
  case Nil
  then show ?case by simp
next
  case (Cons c cs)
  show ?case
  proof (cases c)
    case (Make_castime cur)
    with Cons.prems(1) obtain ct s1 cts1 where
      m: "make_castime cur s = Inr (ct, s1)" and r: "run s1 cs = Inr (cts1, s')" and c: "cts = ct # cts1"
      by (auto split: sum.splits)
    from m have ct: "ct = \<lparr>cas = push_bit 32 (ucast (time (timestamp s))) XOR ucast (cas_counter s + 1),
                       castime_timestamp = timestamp s\<rparr>" and s1: "cas_counter s1 = cas_counter s + 1"
      by (auto simp add: make_castime_def Let_def split: sum.splits)
    show ?thesis
    proof (cases k)
      case 0
      with c ct show ?thesis by auto
    next
      case (Suc j)
      with Cons.prems(2) c have "j < length cts1" by simp
      from Cons.IH [OF r this] s1 Suc c show ?thesis by (simp add: add.assoc)
    qed
  next
    case (Set_timestamp cur ts)
    with Cons.prems(1) obtain s1 where
      m: "set_timestamp cur ts s = Inr s1" and r: "run s1 cs = Inr (cts, s')"
      by (auto split: sum.splits)
    from m have "cas_counter s1 = cas_counter s"
      by (auto simp add: set_timestamp_def split: sum.splits)
    with Cons.IH [OF r Cons.prems(2)] show ?thesis by simp
  qed
qed

lemma run_replicate:
  "run s (replicate n (Make_castime (home_thread s))) =
     Inr (map (\<lambda>k. \<lparr>cas = push_bit 32 (ucast (time (timestamp s))) XOR ucast (cas_counter s + of_nat (Suc k)),
                    castime_timestamp = timestamp s\<rparr>) [0..<n],
          s\<lparr>cas_counter := cas_counter s + of_nat n\<rparr>)"
proof (induction n arbitrary: s)
  case 0
  then show ?case by simp
next
  case (Suc n)
  let ?s1 = "s\<lparr>cas_counter := cas_counter s + 1\<rparr>"
  have m: "make_castime (home_thread s) s =
      Inr (\<lparr>cas = push_bit 32 (ucast (time (timestamp s))) XOR ucast (cas_counter s + 1),
            castime_timestamp = timestamp s\<rparr>, ?s1)"
    by (simp add: make_castime_def assert_thread_def Let_def)
  have u: "[0..<Suc n] = 0 # map Suc [0..<n]"
    by (simp only: upt_conv_Cons [OF zero_less_Suc] map_Suc_upt)
  have "run ?s1 (replicate n (Make_castime (home_thread s))) = 
     Inr (map (\<lambda>k. \<lparr>cas = push_bit 32 (ucast (time (timestamp s))) XOR ucast (cas_counter s + 1 + of_nat (Suc k)),
                    castime_timestamp = timestamp s\<rparr>) [0..<n],
          ?s1\<lparr>cas_counter := cas_counter s + 1 + of_nat n\<rparr>)"
    using Suc.IH [of ?s1] by simp
  then show ?case
    by (simp only: replicate_Suc run.simps m u) (simp add: ac_simps comp_def)
qed

text \<open>
  Claim C1, as amended. In any run of one instance, two calls of \<open>make_castime\<close>
  return distinct cas values unless the number of calls from the one to the other is a
  multiple of \<open>2 ^ 32\<close> (of \<open>2 ^ LENGTH('c)\<close> for a counter narrower than 32 bits),
  whether or not \<open>set_timestamp\<close> was called between them: the low bits of the cas are
  the low bits of the counter.
\<close>

theorem cas_distinct_off_counter_period:
  fixes s :: "('c::len) word timestamping_set_store_interface_t"
  assumes r: "run s cs = Inr (cts, s')" and ij: "i < j" and j: "j < length cts"
    and d: "\<not> 2 ^ min LENGTH('c) 32 dvd j - i"
  shows "cas (cts ! i) \<noteq> cas (cts ! j)"
proof
  assume eq: "cas (cts ! i) = cas (cts ! j)"
  let ?m = "min LENGTH('c) 32"
  from ij j have i: "i < length cts" by simp
  from run_nth [OF r i] obtain t1 where
    e1: "cts ! i = \<lparr>cas = push_bit 32 (ucast (time t1)) XOR ucast (cas_counter s + of_nat (Suc i)),
                     castime_timestamp = t1\<rparr>"
    by blast
  have c1: "cas (cts ! i) = push_bit 32 (ucast (time t1)) XOR ucast (cas_counter s + of_nat (Suc i))"
    by (simp only: e1 castime_t.select_convs)
  from run_nth [OF r j] obtain t2 where
    e2: "cts ! j = \<lparr>cas = push_bit 32 (ucast (time t2)) XOR ucast (cas_counter s + of_nat (Suc j)),
                     castime_timestamp = t2\<rparr>"
    by blast
  have c2: "cas (cts ! j) = push_bit 32 (ucast (time t2)) XOR ucast (cas_counter s + of_nat (Suc j))"
    by (simp only: e2 castime_t.select_convs)
  have "take_bit ?m (cas (cts ! i)) = take_bit ?m (cas (cts ! j))" using eq by simp
  then have "take_bit ?m (ucast (cas_counter s + of_nat (Suc i)) :: 64 word)
      = take_bit ?m (ucast (cas_counter s + of_nat (Suc j)))"
    by (simp only: c1 c2 low_bits_cas [OF min.cobounded2])
  then have "take_bit ?m (cas_counter s + of_nat (Suc i)) = take_bit ?m (cas_counter s + of_nat (Suc j))"
    by (rule take_bit_ucast_eq [OF min.cobounded2])
  moreover have "cas_counter s + of_nat (Suc j) = (cas_counter s + of_nat (Suc i)) + of_nat (j - i)"
    using ij by simp
  ultimately have "take_bit ?m ((cas_counter s + of_nat (Suc i)) + of_nat (j - i))
      = take_bit ?m (cas_counter s + of_nat (Suc i))"
    by (simp only:)
  then have "2 ^ ?m dvd j - i"
    by (rule take_bit_add_cancel [OF min.cobounded1])
  with d show False by simp
qed

theorem cas_distinct_off_counter_period_witness:
  "cas (castimes_of (run (timestamping_init 0 :: 32 word timestamping_set_store_interface_t)
          [Make_castime 0, Set_timestamp 0 \<lparr>time = 7\<rparr>, Make_castime 0]) ! 0)
   \<noteq> cas (castimes_of (run (timestamping_init 0 :: 32 word timestamping_set_store_interface_t)
          [Make_castime 0, Set_timestamp 0 \<lparr>time = 7\<rparr>, Make_castime 0]) ! 1)"
proof -
  let ?s = "timestamping_init 0 :: 32 word timestamping_set_store_interface_t"
  let ?cs = "[Make_castime 0, Set_timestamp 0 \<lparr>time = 7\<rparr>, Make_castime 0]"
  have r: "run ?s ?cs =
      Inr ([\<lparr>cas = 1, castime_timestamp = \<lparr>time = 0\<rparr>\<rparr>, \<lparr>cas = 30064771074, castime_timestamp = \<lparr>time = 7\<rparr>\<rparr>],
           \<lparr>home_thread = 0, cas_counter = 2, timestamp = \<lparr>time = 7\<rparr>\<rparr>)"
    by (simp add: timestamping_init_def make_castime_def set_timestamp_def assert_thread_def
        distant_past_def std_max_def repli_less_def Let_def)
  have "cas ([\<lparr>cas = 1, castime_timestamp = \<lparr>time = 0\<rparr>\<rparr>, \<lparr>cas = 30064771074, castime_timestamp = \<lparr>time = 7\<rparr>\<rparr>] ! 0)
     \<noteq> cas ([\<lparr>cas = 1, castime_timestamp = \<lparr>time = 0\<rparr>\<rparr>, \<lparr>cas = 30064771074, castime_timestamp = \<lparr>time = 7\<rparr>\<rparr>] ! 1)"
    by (rule cas_distinct_off_counter_period [OF r]) simp_all
  then show ?thesis unfolding r by (simp add: castimes_of_def)
qed

text \<open>
  Claim C1 as stated fails. With a 32-bit counter and no call of \<open>set_timestamp\<close>,
  the first and the \<open>2 ^ 32 + 1\<close>-st call return the same cas: the counter has wrapped.
  With a 64-bit counter the counter overflows into the timestamp bits: the first call at
  timestamp 0 and the \<open>2 ^ 32 + 1\<close>-st call, made after \<open>set_timestamp(1)\<close>, return
  the same cas.
\<close>

theorem cas_collision_after_wrap:
  "length (castimes_of (run (timestamping_init 0 :: 32 word timestamping_set_store_interface_t)
          (replicate 4294967297 (Make_castime 0)))) = 4294967297
   \<and> cas (castimes_of (run (timestamping_init 0 :: 32 word timestamping_set_store_interface_t)
          (replicate 4294967297 (Make_castime 0))) ! 0)
   = cas (castimes_of (run (timestamping_init 0 :: 32 word timestamping_set_store_interface_t)
          (replicate 4294967297 (Make_castime 0))) ! 4294967296)
   \<and> length (castimes_of (run (timestamping_init 0 :: 64 word timestamping_set_store_interface_t)
          (Make_castime 0 # Set_timestamp 0 \<lparr>time = 1\<rparr> # replicate 4294967296 (Make_castime 0))))
       = 4294967297
   \<and> cas (castimes_of (run (timestamping_init 0 :: 64 word timestamping_set_store_interface_t)
          (Make_castime 0 # Set_timestamp 0 \<lparr>time = 1\<rparr> # replicate 4294967296 (Make_castime 0))) ! 0)
   = cas (castimes_of (run (timestamping_init 0 :: 64 word timestamping_set_store_interface_t)
          (Make_castime 0 # Set_timestamp 0 \<lparr>time = 1\<rparr> # replicate 4294967296 (Make_castime 0))) ! 4294967296)"
proof -
  let ?s = "timestamping_init 0 :: 32 word timestamping_set_store_interface_t"
  have h: "home_thread ?s = 0" by (simp add: timestamping_init_def)
  have a: "length (castimes_of (run ?s (replicate 4294967297 (Make_castime 0)))) = 4294967297"
    using run_replicate [of ?s 4294967297]
    by (simp add: h castimes_of_def)
  have b: "cas (castimes_of (run ?s (replicate 4294967297 (Make_castime 0))) ! 0)
      = cas (castimes_of (run ?s (replicate 4294967297 (Make_castime 0))) ! 4294967296)"
    using run_replicate [of ?s 4294967297]
    by (simp add: h castimes_of_def) (simp add: timestamping_init_def)
  let ?t = "timestamping_init 0 :: 64 word timestamping_set_store_interface_t"
  let ?t1 = "\<lparr>home_thread = 0, cas_counter = 1 :: 64 word, timestamp = \<lparr>time = 1\<rparr>\<rparr>"
  have r: "run ?t (Make_castime 0 # Set_timestamp 0 \<lparr>time = 1\<rparr> # replicate 4294967296 (Make_castime 0))
      = (case run ?t1 (replicate 4294967296 (Make_castime 0)) of Inl e \<Rightarrow> Inl e 
          | Inr (cts, s'') \<Rightarrow> Inr (\<lparr>cas = 1, castime_timestamp = \<lparr>time = 0\<rparr>\<rparr> # cts, s''))"
    by (simp add: timestamping_init_def make_castime_def set_timestamp_def assert_thread_def
        distant_past_def std_max_def repli_less_def Let_def)
  have c: "length (castimes_of (run ?t (Make_castime 0 # Set_timestamp 0 \<lparr>time = 1\<rparr>
              # replicate 4294967296 (Make_castime 0)))) = 4294967297"
    unfolding r using run_replicate [of ?t1 4294967296]
    by (simp add: castimes_of_def)
  have d: "cas (castimes_of (run ?t (Make_castime 0 # Set_timestamp 0 \<lparr>time = 1\<rparr> # replicate 4294967296 (Make_castime 0))) ! 0)
   = cas (castimes_of (run ?t (Make_castime 0 # Set_timestamp 0 \<lparr>time = 1\<rparr> # replicate 4294967296 (Make_castime 0))) ! 4294967296)"
    unfolding r using run_replicate [of ?t1 4294967296]
    by (simp add: castimes_of_def)
  from a b c d show ?thesis by (simp only: simp_thms)
qed

lemma run_timestamp_lower_bound:
  "run s cs = Inr (cts, s') \<Longrightarrow> time ts \<le> time (timestamp s) \<Longrightarrow>
     (\<forall>ct \<in> set cts. time ts \<le> time (castime_timestamp ct)) \<and> time ts \<le> time (timestamp s')"
proof (induction cs arbitrary: s cts)
  case Nil
  then show ?case by simp
next
  case (Cons c cs)
  show ?case
  proof (cases c)
    case (Make_castime cur)
    with Cons.prems(1) obtain ct s1 cts1 where
      m: "make_castime cur s = Inr (ct, s1)" and r: "run s1 cs = Inr (cts1, s')" and c: "cts = ct # cts1"
      by (auto split: sum.splits)
    from m have ct: "castime_timestamp ct = timestamp s" and s1: "timestamp s1 = timestamp s"
      by (auto simp add: make_castime_def Let_def split: sum.splits)
    from Cons.IH [OF r] s1 Cons.prems(2) ct c show ?thesis by simp
  next
    case (Set_timestamp cur t)
    with Cons.prems(1) obtain s1 where
      m: "set_timestamp cur t s = Inr s1" and r: "run s1 cs = Inr (cts, s')"
      by (auto split: sum.splits)
    from m have "timestamp s1 = std_max (timestamp s) t"
      by (auto simp add: set_timestamp_def split: sum.splits)
    with Cons.prems(2) have "time ts \<le> time (timestamp s1)"
      by (auto simp add: std_max_def repli_less_def)
    from Cons.IH [OF r this] show ?thesis .
  qed
qed

text \<open>
  On the home thread every call succeeds, and a run returns one castime for each call
  of \<open>make_castime\<close>.
\<close>

lemma run_on_home_thread:
  "\<forall>c \<in> set cs. call_thread c = home_thread s \<Longrightarrow>
     \<exists>cts s'. run s cs = Inr (cts, s') \<and> length cts = length (filter is_make_castime cs)"
proof (induction cs arbitrary: s)
  case Nil
  then show ?case by simp
next
  case (Cons c cs)
  show ?case
  proof (cases c)
    case (Make_castime cur)
    with Cons.prems have cur: "cur = home_thread s" by simp
    let ?s1 = "s\<lparr>cas_counter := cas_counter s + 1\<rparr>"
    have m: "make_castime cur s =
        Inr (\<lparr>cas = push_bit 32 (ucast (time (timestamp s))) XOR ucast (cas_counter s + 1),
              castime_timestamp = timestamp s\<rparr>, ?s1)"
      by (simp add: make_castime_def assert_thread_def cur Let_def)
    from Cons.prems have "\<forall>c \<in> set cs. call_thread c = home_thread ?s1" by simp
    from Cons.IH [OF this] obtain cts s' where
      "run ?s1 cs = Inr (cts, s')" "length cts = length (filter is_make_castime cs)"
      by blast
    with m Make_castime show ?thesis by simp
  next
    case (Set_timestamp cur ts)
    with Cons.prems have cur: "cur = home_thread s" by simp
    let ?s1 = "s\<lparr>timestamp := std_max (timestamp s) ts\<rparr>"
    have m: "set_timestamp cur ts s = Inr ?s1"
      by (simp add: set_timestamp_def assert_thread_def cur)
    from Cons.prems have "\<forall>c \<in> set cs. call_thread c = home_thread ?s1" by simp
    from Cons.IH [OF this] obtain cts s' where
      "run ?s1 cs = Inr (cts, s')" "length cts = length (filter is_make_castime cs)"
      by blast
    with m Set_timestamp show ?thesis by simp
  qed
qed

text \<open>
  Claim C2. Called on the home thread, \<open>set_timestamp(ts)\<close> succeeds and stores
  \<open>max(current, ts)\<close>; a \<open>ts\<close> below the current stamp leaves the object unchanged.
  After it, whatever calls follow on the home thread all succeed, each call of
  \<open>make_castime\<close> among them returns a castime, and every castime returned has a
  timestamp of at least \<open>ts\<close>: no later call lowers the stamp.
\<close>

theorem set_timestamp_monotone:
  assumes home: "cur = home_thread s"
  shows "set_timestamp cur ts s = Inr (s\<lparr>timestamp := std_max (timestamp s) ts\<rparr>)
       \<and> time (std_max (timestamp s) ts) = max (time (timestamp s)) (time ts)
       \<and> (repli_less ts (timestamp s) \<longrightarrow> set_timestamp cur ts s = Inr s)
       \<and> (\<forall>cs. (\<forall>c \<in> set cs. call_thread c = home_thread s) \<longrightarrow>
             (\<exists>cts s2. run (s\<lparr>timestamp := std_max (timestamp s) ts\<rparr>) cs = Inr (cts, s2)
                \<and> length cts = length (filter is_make_castime cs)
                \<and> (\<forall>ct \<in> set cts. time ts \<le> time (castime_timestamp ct))))"
proof -
  let ?s1 = "s\<lparr>timestamp := std_max (timestamp s) ts\<rparr>"
  have a: "set_timestamp cur ts s = Inr ?s1"
    by (simp add: set_timestamp_def assert_thread_def home)
  have b: "time (std_max (timestamp s) ts) = max (time (timestamp s)) (time ts)"
    by (auto simp add: std_max_def repli_less_def max_def)
  have c: "set_timestamp cur ts s = Inr s" if "repli_less ts (timestamp s)"
    using that by (auto simp add: a std_max_def repli_less_def)
  have lb: "time ts \<le> time (timestamp ?s1)"
    by (auto simp add: std_max_def repli_less_def)
  have d: "\<exists>cts s2. run ?s1 cs = Inr (cts, s2)
                \<and> length cts = length (filter is_make_castime cs)
                \<and> (\<forall>ct \<in> set cts. time ts \<le> time (castime_timestamp ct))"
    if h: "\<forall>c \<in> set cs. call_thread c = home_thread s" for cs
  proof -
    from h have "\<forall>c \<in> set cs. call_thread c = home_thread ?s1" by simp
    from run_on_home_thread [OF this] obtain cts s2 where
      r: "run ?s1 cs = Inr (cts, s2)" and l: "length cts = length (filter is_make_castime cs)"
      by blast
    from run_timestamp_lower_bound [OF r lb]
    have "\<forall>ct \<in> set cts. time ts \<le> time (castime_timestamp ct)" by simp
    with r l show ?thesis by blast
  qed
  from a b c d show ?thesis by blast
qed

theorem set_timestamp_monotone_witness:
  "set_timestamp 0 \<lparr>time = 9\<rparr>
      (\<lparr>home_thread = 0, cas_counter = 0 :: 32 word, timestamp = \<lparr>time = 5\<rparr>\<rparr>)
     = Inr \<lparr>home_thread = 0, cas_counter = 0 :: 32 word, timestamp = \<lparr>time = 9\<rparr>\<rparr>
   \<and> run \<lparr>home_thread = 0, cas_counter = 0 :: 32 word, timestamp = \<lparr>time = 9\<rparr>\<rparr>
         [Make_castime 0, Set_timestamp 0 \<lparr>time = 2\<rparr>, Make_castime 0]
     = Inr ([\<lparr>cas = 38654705665, castime_timestamp = \<lparr>time = 9\<rparr>\<rparr>,
             \<lparr>cas = 38654705666, castime_timestamp = \<lparr>time = 9\<rparr>\<rparr>],
            \<lparr>home_thread = 0, cas_counter = 2 :: 32 word, timestamp = \<lparr>time = 9\<rparr>\<rparr>)
   \<and> time \<lparr>time = 9\<rparr> \<le> time (castime_timestamp \<lparr>cas = 38654705666, castime_timestamp = \<lparr>time = 9\<rparr>\<rparr>)
   \<and> repli_less \<lparr>time = 3\<rparr> \<lparr>time = 5\<rparr>
   \<and> set_timestamp 0 \<lparr>time = 3\<rparr>
      (\<lparr>home_thread = 0, cas_counter = 0 :: 32 word, timestamp = \<lparr>time = 5\<rparr>\<rparr>)
     = Inr \<lparr>home_thread = 0, cas_counter = 0 :: 32 word, timestamp = \<lparr>time = 5\<rparr>\<rparr>"
proof -
  let ?s = "\<lparr>home_thread = 0, cas_counter = 0 :: 32 word, timestamp = \<lparr>time = 5\<rparr>\<rparr>"
  let ?s9 = "\<lparr>home_thread = 0, cas_counter = 0 :: 32 word, timestamp = \<lparr>time = 9\<rparr>\<rparr>"
  let ?cs = "[Make_castime 0, Set_timestamp 0 \<lparr>time = 2\<rparr>, Make_castime 0]"
  let ?cts = "[\<lparr>cas = 38654705665, castime_timestamp = \<lparr>time = 9\<rparr>\<rparr>,
             \<lparr>cas = 38654705666, castime_timestamp = \<lparr>time = 9\<rparr>\<rparr>]"
  have h: "0 = home_thread ?s" by simp
  have u: "?s\<lparr>timestamp := std_max (timestamp ?s) \<lparr>time = 9\<rparr>\<rparr> = ?s9"
    by (simp add: std_max_def repli_less_def)
  have hc: "\<forall>c \<in> set ?cs. call_thread c = home_thread ?s" by simp
  have l: "repli_less \<lparr>time = 3\<rparr> (timestamp ?s)" by (simp add: repli_less_def)
  note t9 = set_timestamp_monotone [OF h, of "\<lparr>time = 9\<rparr>"]
  note t3 = set_timestamp_monotone [OF h, of "\<lparr>time = 3\<rparr>"]
  from t9 have a: "set_timestamp 0 \<lparr>time = 9\<rparr> ?s = Inr ?s9" by (simp only: u)
  have r: "run ?s9 ?cs = Inr (?cts, \<lparr>home_thread = 0, cas_counter = 2 :: 32 word, timestamp = \<lparr>time = 9\<rparr>\<rparr>)"
    by (simp add: make_castime_def set_timestamp_def assert_thread_def std_max_def
        repli_less_def Let_def)
  from t9 hc obtain cts s2 where
    r': "run (?s\<lparr>timestamp := std_max (timestamp ?s) \<lparr>time = 9\<rparr>\<rparr>) ?cs = Inr (cts, s2)"
    and b': "\<forall>ct \<in> set cts. time \<lparr>time = 9\<rparr> \<le> time (castime_timestamp ct)"
    by blast
  from r' r have "cts = ?cts" by (simp only: u) simp
  with b' have b: "time \<lparr>time = 9\<rparr>
      \<le> time (castime_timestamp \<lparr>cas = 38654705666, castime_timestamp = \<lparr>time = 9\<rparr>\<rparr>)"
    by simp
  from l have l': "repli_less \<lparr>time = 3\<rparr> \<lparr>time = 5\<rparr>" by simp
  from t3 l have c: "set_timestamp 0 \<lparr>time = 3\<rparr> ?s = Inr ?s" by blast
  from a r b l' c show ?thesis by (simp only: simp_thms)
qed

section \<open>Properties of mutations and of the interfaces\<close>

text \<open>
  Claim C6. For a mutation of each of the five kinds, \<open>get_key\<close> returns the key the
  mutation was built with; \<open>get_key\<close> has one equation per kind and no default, and
  every mutation \<open>x\<close> is of one of the five kinds.
\<close>

theorem get_key_projection:
  "get_key (Get_cas_mutation \<lparr>gc_key = k\<rparr>) = k
   \<and> get_key (Sarc_mutation \<lparr>sarc_key = k, sarc_data = d, sarc_flags = f, sarc_exptime = e,
        sarc_add_policy = ap, sarc_replace_policy = rp, sarc_old_cas = oc\<rparr>) = k
   \<and> get_key (Delete_mutation \<lparr>del_key = k, dont_put_in_delete_queue = q\<rparr>) = k
   \<and> get_key (Incr_decr_mutation \<lparr>idm_kind = ik, idm_key = k, idm_amount = a\<rparr>) = k
   \<and> get_key (Append_prepend_mutation \<lparr>apm_kind = ak, apm_key = k, apm_data = d\<rparr>) = k
   \<and> ((\<exists>m. x = Get_cas_mutation m \<and> get_key x = gc_key m)
      \<or> (\<exists>m. x = Sarc_mutation m \<and> get_key x = sarc_key m)
      \<or> (\<exists>m. x = Delete_mutation m \<and> get_key x = del_key m)
      \<or> (\<exists>m. x = Incr_decr_mutation m \<and> get_key x = idm_key m)
      \<or> (\<exists>m. x = Append_prepend_mutation m \<and> get_key x = apm_key m))"
  by (cases x) simp_all

text \<open>
  Claim C7. \<open>change\<close> of the timestamping layer returns the result of the target's
  \<open>change\<close>, called with the same sequence group, mutation and order token and with
  the castime that \<open>make_castime\<close> has just returned; it neither inspects the mutation
  nor alters the result.
\<close>

theorem change_forwards:
  assumes "make_castime cur s = Inr (ct, s')"
  shows "change target cur seq_group mutation token (s, sink)
     = Inr (fst (target seq_group mutation ct token sink),
            (s', snd (target seq_group mutation ct token sink)))"
  using assms
  by (auto simp add: change_def make_castime_def assert_thread_def split: sum.splits prod.splits if_splits)

theorem change_forwards_witness:
  "make_castime 0 (timestamping_init 0 :: 32 word timestamping_set_store_interface_t)
     = Inr (\<lparr>cas = 1, castime_timestamp = \<lparr>time = 0\<rparr>\<rparr>,
            \<lparr>home_thread = 0, cas_counter = 1, timestamp = \<lparr>time = 0\<rparr>\<rparr>)
   \<and> change (\<lambda>sg m ct tok (n :: nat). (\<lparr>result = Delete_result dr_not_found, assigned = ct\<rparr>, Suc n))
        0 4 (Delete_mutation \<lparr>del_key = \<lparr>key_size = 1, contents = ''a''\<rparr>,
                              dont_put_in_delete_queue = False\<rparr>) 9
        (timestamping_init 0 :: 32 word timestamping_set_store_interface_t, 0)
     = Inr (\<lparr>result = Delete_result dr_not_found,
             assigned = \<lparr>cas = 1, castime_timestamp = \<lparr>time = 0\<rparr>\<rparr>\<rparr>,
            (\<lparr>home_thread = 0, cas_counter = 1, timestamp = \<lparr>time = 0\<rparr>\<rparr>, 1))"
proof -
  have m: "make_castime 0 (timestamping_init 0 :: 32 word timestamping_set_store_interface_t)
     = Inr (\<lparr>cas = 1, castime_timestamp = \<lparr>time = 0\<rparr>\<rparr>,
            \<lparr>home_thread = 0, cas_counter = 1, timestamp = \<lparr>time = 0\<rparr>\<rparr>)"
    by (simp add: make_castime_def timestamping_init_def assert_thread_def distant_past_def Let_def)
  from change_forwards [OF m,
      of "\<lambda>sg m ct tok (n :: nat). (\<lparr>result = Delete_result dr_not_found, assigned = ct\<rparr>, Suc n)"
         4 "Delete_mutation \<lparr>del_key = \<lparr>key_size = 1, contents = ''a''\<rparr>,
                              dont_put_in_delete_queue = False\<rparr>" 9 0] m
  show ?thesis by simp
qed

lemma get_from_result_Inr:
  "get_from_result bget (Inr (r, st')) = (case bget (result r) of Inl e \<Rightarrow> Inl e | Inr v \<Rightarrow> Inr (v, st'))"
  by (simp add: get_from_result_def)

text \<open>
  Each convenience method of \<open>set_store_interface_t\<close> builds the mutation of its kind
  from its arguments, of the key the copy that \<open>mut.key = key\<close> makes, passes it to
  \<open>change\<close> with the sequence group and the order token, and returns the alternative of
  its kind from the result of \<open>change\<close>, with the state \<open>change\<close> left; when the
  result holds another alternative, \<open>boost::get\<close> fails.
\<close>

lemma convenience_methods_forward:
  fixes chg :: "'st change_t"
  shows
  "(chg seq_group (Get_cas_mutation \<lparr>gc_key = copy_key key\<rparr>) token st = Inr (r, st') \<longrightarrow>
      get_cas chg seq_group key token st
        = (case result r of Get_result v \<Rightarrow> Inr (v, st') | _ \<Rightarrow> Inl Bad_get))
   \<and> (chg seq_group (Sarc_mutation \<lparr>sarc_key = copy_key key, sarc_data = data, sarc_flags = flgs,
           sarc_exptime = exptime, sarc_add_policy = add_policy,
           sarc_replace_policy = replace_policy, sarc_old_cas = old_cas\<rparr>) token st = Inr (r, st') \<longrightarrow>
      sarc chg seq_group key data flgs exptime add_policy replace_policy old_cas token st
        = (case result r of Set_result v \<Rightarrow> Inr (v, st') | _ \<Rightarrow> Inl Bad_get))
   \<and> (chg seq_group (Incr_decr_mutation \<lparr>idm_kind = ikind, idm_key = copy_key key,
           idm_amount = amount\<rparr>) token st = Inr (r, st') \<longrightarrow>
      incr_decr chg seq_group ikind key amount token st
        = (case result r of Incr_decr_result v \<Rightarrow> Inr (v, st') | _ \<Rightarrow> Inl Bad_get))
   \<and> (chg seq_group (Append_prepend_mutation \<lparr>apm_kind = akind, apm_key = copy_key key,
           apm_data = data\<rparr>) token st = Inr (r, st') \<longrightarrow>
      append_prepend chg seq_group akind key data token st
        = (case result r of Append_prepend_result v \<Rightarrow> Inr (v, st') | _ \<Rightarrow> Inl Bad_get))
   \<and> (chg seq_group (Delete_mutation \<lparr>del_key = copy_key key,
           dont_put_in_delete_queue = dont_put\<rparr>) token st = Inr (r, st') \<longrightarrow>
      delete_key chg seq_group key token dont_put st
        = (case result r of Delete_result v \<Rightarrow> Inr (v, st') | _ \<Rightarrow> Inl Bad_get))"
proof -
  have a: "get_cas chg seq_group key token st
        = (case result r of Get_result v \<Rightarrow> Inr (v, st') | _ \<Rightarrow> Inl Bad_get)"
    if "chg seq_group (Get_cas_mutation \<lparr>gc_key = copy_key key\<rparr>) token st = Inr (r, st')"
    using that
    by (simp add: get_cas_def get_from_result_Inr boost_get_get_result_def
        split: result_variant_t.splits)
  have b: "sarc chg seq_group key data flgs exptime add_policy replace_policy old_cas token st
        = (case result r of Set_result v \<Rightarrow> Inr (v, st') | _ \<Rightarrow> Inl Bad_get)"
    if "chg seq_group (Sarc_mutation \<lparr>sarc_key = copy_key key, sarc_data = data, sarc_flags = flgs,
           sarc_exptime = exptime, sarc_add_policy = add_policy,
           sarc_replace_policy = replace_policy, sarc_old_cas = old_cas\<rparr>) token st = Inr (r, st')"
    using that
    by (simp add: sarc_def get_from_result_Inr boost_get_set_result_def
        split: result_variant_t.splits)
  have c: "incr_decr chg seq_group ikind key amount token st
        = (case result r of Incr_decr_result v \<Rightarrow> Inr (v, st') | _ \<Rightarrow> Inl Bad_get)"
    if "chg seq_group (Incr_decr_mutation \<lparr>idm_kind = ikind, idm_key = copy_key key,
           idm_amount = amount\<rparr>) token st = Inr (r, st')"
    using that
    by (simp add: incr_decr_def get_from_result_Inr boost_get_incr_decr_result_def
        split: result_variant_t.splits)
  have d: "append_prepend chg seq_group akind key data token st
        = (case result r of Append_prepend_result v \<Rightarrow> Inr (v, st') | _ \<Rightarrow> Inl Bad_get)"
    if "chg seq_group (Append_prepend_mutation \<lparr>apm_kind = akind, apm_key = copy_key key,
           apm_data = data\<rparr>) token st = Inr (r, st')"
    using that
    by (simp add: append_prepend_def get_from_result_Inr boost_get_append_prepend_result_def
        split: result_variant_t.splits)
  have e: "delete_key chg seq_group key token dont_put st
        = (case result r of Delete_result v \<Rightarrow> Inr (v, st') | _ \<Rightarrow> Inl Bad_get)"
    if "chg seq_group (Delete_mutation \<lparr>del_key = copy_key key,
           dont_put_in_delete_queue = dont_put\<rparr>) token st = Inr (r, st')"
    using that
    by (simp add: delete_key_def get_from_result_Inr boost_get_delete_result_def
        split: result_variant_t.splits)
  from a b c d e show ?thesis by blast
qed


section \<open>Properties of \<open>str_to_key\<close>\<close>

text \<open>
  For a string of fewer than \<open>2 ^ 31\<close> bytes, and with a \<open>MAX_KEY_SIZE\<close> that fits the
  length byte, \<open>str_to_key\<close> accepts the string exactly when it is at most
  \<open>MAX_KEY_SIZE\<close> bytes long, stores its length and its bytes, and leaves the buffer
  alone when it rejects.
\<close>

lemma sint_small:
  assumes "n < 2 ^ 31"
  shows "sint (word_of_nat n :: 32 word) = int n"
proof -
  have "sint (word_of_int (int n) :: 32 word) = signed_take_bit 31 (int n)"
    using sint_sbintrunc' [where 'a = 32, of "int n"] by simp
  also have "\<dots> = int n"
    using assms by (intro signed_take_bit_int_eq_self) auto
  finally show ?thesis by simp
qed

lemma str_to_key_small:
  assumes len: "length str < 2 ^ 31"
  shows "str_to_key MAX_KEY_SIZE str buf =
    (if length str \<le> MAX_KEY_SIZE
     then Inr (True, \<lparr>key_size = of_nat (length str), contents = str @ drop (length str) (contents buf)\<rparr>)
     else Inr (False, buf))"
  by (simp add: str_to_key_def sint_small [OF len] Let_def)

lemma str_to_key_small_bytes:
  assumes len: "length str < 2 ^ 31" and mx: "MAX_KEY_SIZE < 256"
    and r: "str_to_key MAX_KEY_SIZE str buf = Inr (True, k)"
  shows "unat (key_size k) = length str \<and> key_bytes k = str \<and> unat (key_size k) \<le> MAX_KEY_SIZE"
proof -
  from r str_to_key_small [OF len, of MAX_KEY_SIZE buf] have le: "length str \<le> MAX_KEY_SIZE"
    and k: "k = \<lparr>key_size = of_nat (length str), contents = str @ drop (length str) (contents buf)\<rparr>"
    by (auto split: if_splits)
  from le mx have "unat (of_nat (length str) :: 8 word) = length str"
    by (simp add: unat_of_nat)
  with k le show ?thesis by (simp add: key_bytes_def)
qed

text \<open>
  Claim C9, at a string the claim gets wrong. For a string of \<open>2 ^ 32\<close> bytes (and
  \<open>MAX_KEY_SIZE = 250\<close>) \<open>strlen\<close> returns \<open>2 ^ 32\<close>, \<open>int len\<close> receives 0, the test
  \<open>len <= MAX_KEY_SIZE\<close> passes, and \<open>str_to_key\<close> returns true with a key of size 0,
  although the string is longer than \<open>MAX_KEY_SIZE\<close>.
\<close>

theorem str_to_key_truncates_strlen:
  "str_to_key 250 (replicate 4294967296 (CHR ''a'')) \<lparr>key_size = 3, contents = ''old''\<rparr>
     = Inr (True, \<lparr>key_size = 0, contents = ''old''\<rparr>)"
  by (simp add: str_to_key_def)

text \<open>
  A string of \<open>2 ^ 31\<close> bytes makes \<open>len\<close> negative: the test passes as well, and
  \<open>memcpy\<close> is called with a count of nearly \<open>2 ^ 64\<close>.
\<close>

lemma str_to_key_negative_len:
  "str_to_key 250 (replicate 2147483648 (CHR ''a'')) buf = Inl Memory_fault"
  by (simp add: str_to_key_def)

section \<open>Properties of shutdown and startup\<close>

lemma server_shutdown_no_message:
  "interrupt_message p = None \<Longrightarrow> server_shutdown cur p = p"
  by (simp add: server_shutdown_def set_interrupt_message_def)

lemma server_shutdown_clears: "interrupt_message (server_shutdown cur p) = None"
  by (simp add: server_shutdown_def set_interrupt_message_def continue_on_thread_def
      call_later_on_this_thread_def split: option.splits)

lemma shutdown_requests_no_message:
  "interrupt_message p = None \<Longrightarrow> shutdown_requests curs p = p"
  by (induction curs) (simp_all add: server_shutdown_no_message)

text \<open>
  Claim C5. A shutdown request made when the interrupt message has already been taken
  changes nothing; so a second \<open>server_shutdown\<close> after a first is a no-op, and of any
  sequence of requests only the first acts. The first hands the interrupt message to the
  last thread of the pool, once.
\<close>

theorem server_shutdown_idempotent:
  "server_shutdown cur' (server_shutdown cur p) = server_shutdown cur p
   \<and> shutdown_requests (cur # curs) p = server_shutdown cur p
   \<and> (interrupt_message p = None \<longrightarrow> server_shutdown cur p = p)
   \<and> (interrupt_message p = Some msg \<longrightarrow>
        server_shutdown cur p =
          p\<lparr>interrupt_message := None, delivered := delivered p @ [(num_threads p - 1, msg)]\<rparr>)"
proof -
  have a: "server_shutdown cur' (server_shutdown cur p) = server_shutdown cur p"
    by (rule server_shutdown_no_message) (rule server_shutdown_clears)
  have b: "shutdown_requests (cur # curs) p = server_shutdown cur p"
    by (simp add: shutdown_requests_no_message server_shutdown_clears)
  have c: "server_shutdown cur p = p" if "interrupt_message p = None"
    using that by (rule server_shutdown_no_message)
  have d: "server_shutdown cur p =
          p\<lparr>interrupt_message := None, delivered := delivered p @ [(num_threads p - 1, msg)]\<rparr>"
    if "interrupt_message p = Some msg"
    using that
    by (simp add: server_shutdown_def set_interrupt_message_def continue_on_thread_def
      call_later_on_this_thread_def)
  from a b c d show ?thesis by blast
qed

theorem server_shutdown_idempotent_witness:
  "server_shutdown 0 \<lparr>interrupt_message = Some 42, num_threads = 4, delivered = []\<rparr>
     = \<lparr>interrupt_message = None, num_threads = 4, delivered = [(3, 42)]\<rparr>
   \<and> server_shutdown 1 \<lparr>interrupt_message = None, num_threads = 4, delivered = [(3, 42)]\<rparr>
     = \<lparr>interrupt_message = None, num_threads = 4, delivered = [(3, 42)]\<rparr>
   \<and> shutdown_requests [0, 1, 3] \<lparr>interrupt_message = Some 42, num_threads = 4, delivered = []\<rparr>
     = \<lparr>interrupt_message = None, num_threads = 4, delivered = [(3, 42)]\<rparr>"
proof -
  let ?p = "\<lparr>interrupt_message = Some 42, num_threads = 4, delivered = []\<rparr>"
  let ?q = "\<lparr>interrupt_message = None, num_threads = 4, delivered = [(3, 42)]\<rparr>"
  have hp: "interrupt_message ?p = Some 42" by simp
  have hq: "interrupt_message ?q = None" by simp
  from server_shutdown_idempotent [where p = ?p and cur = 0 and msg = 42] hp
  have a: "server_shutdown 0 ?p = ?q" by simp
  from server_shutdown_idempotent [where p = ?q and cur = 1] hq
  have b: "server_shutdown 1 ?q = ?q" by blast
  from server_shutdown_idempotent [where p = ?p and cur = 0 and curs = "[1, 3]"] a
  have c: "shutdown_requests [0, 1, 3] ?p = ?q" by simp
  from a b c show ?thesis by (simp only: simp_thms)
qed

lemma check_files_eq:
  "check_files ex fs (a, d) = (a \<or> (\<exists>f \<in> set fs. ex f), d \<or> (\<exists>f \<in> set fs. \<not> ex f))"
  by (induction fs arbitrary: a d) auto

lemma overwrite_check_eq:
  "overwrite_check cfg e =
     (if (\<exists>f \<in> set (db_filenames cfg). file_exists e f)
         \<and> (create_store cfg \<or> (\<exists>f \<in> set (db_filenames cfg). \<not> file_exists e f))
         \<and> \<not> force_create cfg
      then Inl Overwrite_existing_file
      else Inr (create_store cfg \<or> (\<exists>f \<in> set (db_filenames cfg). \<not> file_exists e f)))"
  by (simp add: overwrite_check_def check_files_eq)

lemma server_main_after_check:
  "overwrite_check cfg e = Inr c \<Longrightarrow>
     server_main N cfg e =
       (case start_stores N cfg c e of
          (acts, Failed ue) \<Rightarrow> (acts, Exited ue)
        | (acts, Threw_address_in_use) \<Rightarrow>
            (acts @ [Log_address_in_use, Thread_pool_shutdown], Returned)
        | (acts, Done) \<Rightarrow> (acts @ [Thread_pool_shutdown], Returned))"
  by (simp add: server_main_def)

lemma start_stores_never_overwrite_error:
  "snd (start_stores N cfg c e) \<noteq> Failed Overwrite_existing_file"
  by (auto simp add: start_stores_def slave_mode_def master_mode_def standalone_mode_def Let_def
      split: prod.splits if_splits)

lemma start_stores_no_user_error:
  "stored_master_id e = 0 \<or> stored_master_id e = N \<Longrightarrow> snd (start_stores N cfg c e) \<noteq> Failed ue"
  by (auto simp add: start_stores_def slave_mode_def master_mode_def standalone_mode_def Let_def
      split: prod.splits if_splits)

lemma server_main_no_user_error:
  assumes oc: "overwrite_check cfg e = Inr c"
    and id: "stored_master_id e = 0 \<or> stored_master_id e = N"
  shows "snd (server_main N cfg e) = Returned"
proof -
  obtain acts st where ss: "start_stores N cfg c e = (acts, st)"
    by (cases "start_stores N cfg c e")
  from start_stores_no_user_error [OF id, of cfg c] ss have "\<And>ue. st \<noteq> Failed ue" by simp
  then show ?thesis by (cases st) (auto simp add: server_main_after_check [OF oc] ss)
qed

lemma start_stores_create:
  "take 3 (fst (start_stores N cfg True e)) = [Log_disk_info, Create_store, Create_metadata_store]"
  by (auto simp add: start_stores_def Let_def split: prod.splits)

lemma server_main_creates:
  assumes oc: "overwrite_check cfg e = Inr True"
  shows "snd (server_main N cfg e) \<noteq> Exited Overwrite_existing_file
     \<and> take 3 (fst (server_main N cfg e)) = [Log_disk_info, Create_store, Create_metadata_store]"
proof -
  obtain acts st where ss: "start_stores N cfg True e = (acts, st)"
    by (cases "start_stores N cfg True e")
  from start_stores_never_overwrite_error [of N cfg True e] ss
  have st: "st \<noteq> Failed Overwrite_existing_file" by simp
  from start_stores_create [of N cfg e] ss
  have t: "take 3 acts = [Log_disk_info, Create_store, Create_metadata_store]" by simp
  then have "length (take 3 acts) = 3" by simp
  then have l: "3 \<le> length acts" by simp
  show ?thesis using st t l by (cases st) (simp_all add: server_main_after_check [OF oc] ss)
qed

text \<open>
  Claim C8. When creation is requested, by the configuration or because some configured
  database file does not exist, and some configured file exists, and \<open>force_create\<close> is
  not set, the check raises the overwrite error and \<open>server_main\<close> ends with it before it
  has done anything to a store. When none of the configured database files exists, the
  check raises no error and switches creation on, and \<open>server_main\<close> goes on to create
  the stores; the id of the new store not reading as a slave's, \<open>server_main\<close> returns
  without any user error.
\<close>

theorem overwrite_guard:
  "((create_store cfg \<or> (\<exists>f \<in> set (db_filenames cfg). \<not> file_exists e f))
      \<and> (\<exists>f \<in> set (db_filenames cfg). file_exists e f) \<and> \<not> force_create cfg
     \<longrightarrow> overwrite_check cfg e = Inl Overwrite_existing_file
       \<and> server_main N cfg e = ([], Exited Overwrite_existing_file))
   \<and> (db_filenames cfg \<noteq> [] \<and> (\<forall>f \<in> set (db_filenames cfg). \<not> file_exists e f)
     \<longrightarrow> overwrite_check cfg e = Inr True
       \<and> snd (server_main N cfg e) \<noteq> Exited Overwrite_existing_file
       \<and> take 3 (fst (server_main N cfg e)) = [Log_disk_info, Create_store, Create_metadata_store]
       \<and> (stored_master_id e = 0 \<or> stored_master_id e = N
            \<longrightarrow> snd (server_main N cfg e) = Returned))"
proof -
  have a: "overwrite_check cfg e = Inl Overwrite_existing_file
       \<and> server_main N cfg e = ([], Exited Overwrite_existing_file)"
    if "(create_store cfg \<or> (\<exists>f \<in> set (db_filenames cfg). \<not> file_exists e f))
      \<and> (\<exists>f \<in> set (db_filenames cfg). file_exists e f) \<and> \<not> force_create cfg"
  proof -
    from that have "overwrite_check cfg e = Inl Overwrite_existing_file"
      by (simp add: overwrite_check_eq)
    then show ?thesis by (simp add: server_main_def)
  qed
  have b: "overwrite_check cfg e = Inr True
       \<and> snd (server_main N cfg e) \<noteq> Exited Overwrite_existing_file
       \<and> take 3 (fst (server_main N cfg e)) = [Log_disk_info, Create_store, Create_metadata_store]
       \<and> (stored_master_id e = 0 \<or> stored_master_id e = N
            \<longrightarrow> snd (server_main N cfg e) = Returned)"
    if h: "db_filenames cfg \<noteq> [] \<and> (\<forall>f \<in> set (db_filenames cfg). \<not> file_exists e f)"
  proof -
    from h obtain f where "f \<in> set (db_filenames cfg)" by (cases "db_filenames cfg") auto
    with h have d: "\<exists>f \<in> set (db_filenames cfg). \<not> file_exists e f" by blast
    from h have n: "\<not> (\<exists>f \<in> set (db_filenames cfg). file_exists e f)" by blast
    from d n have oc: "overwrite_check cfg e = Inr True" by (simp add: overwrite_check_eq)
    with server_main_creates [OF oc, of N] server_main_no_user_error [OF oc, of N]
    show ?thesis by blast
  qed
  from a b show ?thesis by blast
qed

theorem overwrite_guard_witness:
  "server_main 4294967295
      \<lparr>db_filenames = [''a.db'', ''b.db''], create_store = False, force_create = False,
       shutdown_after_creation = False, import_config_file = [],
       replication_config_active = False, replication_master_active = False,
       force_unslavify = False, port = 11211, replication_master_listen_port = 11319\<rparr>
      \<lparr>file_exists = (\<lambda>f. f = ''a.db''), stored_master_id = 0, port_in_use = (\<lambda>p. False)\<rparr>
     = ([], Exited Overwrite_existing_file)
   \<and> overwrite_check
      \<lparr>db_filenames = [''a.db'', ''b.db''], create_store = False, force_create = False,
       shutdown_after_creation = False, import_config_file = [],
       replication_config_active = False, replication_master_active = False,
       force_unslavify = False, port = 11211, replication_master_listen_port = 11319\<rparr>
      \<lparr>file_exists = (\<lambda>f. False), stored_master_id = 0, port_in_use = (\<lambda>p. False)\<rparr>
     = Inr True
   \<and> take 3 (fst (server_main 4294967295
      \<lparr>db_filenames = [''a.db'', ''b.db''], create_store = False, force_create = False,
       shutdown_after_creation = False, import_config_file = [],
       replication_config_active = False, replication_master_active = False,
       force_unslavify = False, port = 11211, replication_master_listen_port = 11319\<rparr>
      \<lparr>file_exists = (\<lambda>f. False), stored_master_id = 0, port_in_use = (\<lambda>p. False)\<rparr>))
     = [Log_disk_info, Create_store, Create_metadata_store]
   \<and> snd (server_main 4294967295
      \<lparr>db_filenames = [''a.db'', ''b.db''], create_store = False, force_create = False,
       shutdown_after_creation = False, import_config_file = [],
       replication_config_active = False, replication_master_active = False,
       force_unslavify = False, port = 11211, replication_master_listen_port = 11319\<rparr>
      \<lparr>file_exists = (\<lambda>f. False), stored_master_id = 0, port_in_use = (\<lambda>p. False)\<rparr>)
     = Returned"
proof -
  let ?cfg = "\<lparr>db_filenames = [''a.db'', ''b.db''], create_store = False, force_create = False,
       shutdown_after_creation = False, import_config_file = [],
       replication_config_active = False, replication_master_active = False,
       force_unslavify = False, port = 11211, replication_master_listen_port = 11319\<rparr>"
  let ?e1 = "\<lparr>file_exists = (\<lambda>f. f = ''a.db''), stored_master_id = 0 :: 32 word,
       port_in_use = (\<lambda>p :: nat. False)\<rparr>"
  let ?e2 = "\<lparr>file_exists = (\<lambda>f :: string. False), stored_master_id = 0 :: 32 word,
       port_in_use = (\<lambda>p :: nat. False)\<rparr>"
  have h1: "(create_store ?cfg \<or> (\<exists>f \<in> set (db_filenames ?cfg). \<not> file_exists ?e1 f))
      \<and> (\<exists>f \<in> set (db_filenames ?cfg). file_exists ?e1 f) \<and> \<not> force_create ?cfg"
    by simp
  have h2: "db_filenames ?cfg \<noteq> [] \<and> (\<forall>f \<in> set (db_filenames ?cfg). \<not> file_exists ?e2 f)"
    by simp
  from overwrite_guard [of ?cfg ?e1 4294967295] h1
  have a: "server_main 4294967295 ?cfg ?e1 = ([], Exited Overwrite_existing_file)" by blast
  from overwrite_guard [of ?cfg ?e2 4294967295] h2
  have b: "overwrite_check ?cfg ?e2 = Inr True"
    and c: "take 3 (fst (server_main 4294967295 ?cfg ?e2))
      = [Log_disk_info, Create_store, Create_metadata_store]" by blast+
  have h3: "stored_master_id ?e2 = 0 \<or> stored_master_id ?e2 = 4294967295" by simp
  from overwrite_guard [of ?cfg ?e2 4294967295] h2 h3
  have d: "snd (server_main 4294967295 ?cfg ?e2) = Returned" by blast
  from a b c d show ?thesis by (simp only: simp_thms)
qed

lemma start_stores_serving:
  assumes "\<not> shutdown_after_creation cfg" "import_config_file cfg = []" "\<not> replication_config_active cfg"
  shows "start_stores N cfg c e =
     (case (if replication_master_active cfg then master_mode N cfg e else standalone_mode N cfg e) of
        (acts, st) \<Rightarrow> ((Log_disk_info # (if c then [Create_store, Create_metadata_store] else []))
                         @ [Open_metadata_store, Open_store] @ acts, st))"
  using assms by (simp add: start_stores_def Let_def split: prod.splits)

text \<open>
  Claim C4, as amended. Take a start of \<open>server_main\<close> that gets past the overwrite
  check, is not told to stop after creation, imports nothing and is not a slave, so that
  it runs as master or standalone, on a store whose replication master id reads as a
  slave's (neither 0 nor \<open>NOT_A_SLAVE\<close>). Without \<open>force_unslavify\<close> the id is never set;
  in standalone mode, and in master mode when the listener gets its port, the process
  ends with the user error of its mode, the reading of the id being the last thing it
  did. With \<open>force_unslavify\<close>, in standalone mode and in master mode when the listener
  gets its port, the id is read and then set to \<open>NOT_A_SLAVE\<close>, and \<open>server_main\<close>
  returns without a user error. \<open>loaded\<close> stands for what \<open>server_main\<close> does before it
  chooses the topology.
\<close>

theorem role_marker_guard:
  assumes chk: "overwrite_check cfg e = Inr c"
    and run: "\<not> shutdown_after_creation cfg" and imp: "import_config_file cfg = []"
    and nsl: "\<not> replication_config_active cfg"
    and m0: "stored_master_id e \<noteq> 0" and m1: "stored_master_id e \<noteq> NOT_A_SLAVE"
    and ld: "loaded = Log_disk_info # (if c then [Create_store, Create_metadata_store] else [])
                @ [Open_metadata_store, Open_store]"
  shows "(\<not> force_unslavify cfg \<longrightarrow>
            (\<forall>v. Set_replication_master_id v \<notin> set (fst (server_main NOT_A_SLAVE cfg e)))
          \<and> (\<not> replication_master_active cfg \<longrightarrow>
                server_main NOT_A_SLAVE cfg e
                  = (loaded @ [Get_replication_master_id], Exited Former_slave_as_standalone))
          \<and> (replication_master_active cfg \<and> \<not> port_in_use e (port cfg) \<longrightarrow>
                server_main NOT_A_SLAVE cfg e
                  = (loaded @ [Listen (port cfg), Get_replication_master_id],
                     Exited Former_slave_as_master)))
       \<and> (force_unslavify cfg \<longrightarrow>
            (\<not> replication_master_active cfg \<longrightarrow>
                snd (server_main NOT_A_SLAVE cfg e) = Returned
              \<and> (\<exists>rest. fst (server_main NOT_A_SLAVE cfg e)
                    = loaded @ [Get_replication_master_id,
                                Set_replication_master_id NOT_A_SLAVE] @ rest))
          \<and> (replication_master_active cfg \<and> \<not> port_in_use e (port cfg) \<longrightarrow>
                snd (server_main NOT_A_SLAVE cfg e) = Returned
              \<and> (\<exists>rest. fst (server_main NOT_A_SLAVE cfg e)
                    = loaded @ [Listen (port cfg), Get_replication_master_id,
                                Set_replication_master_id NOT_A_SLAVE] @ rest)))"
proof -
  note sm = server_main_after_check [OF chk, of NOT_A_SLAVE]
  note ss = start_stores_serving [OF run imp nsl, of NOT_A_SLAVE c e]
  show ?thesis
  proof (cases "replication_master_active cfg")
    case True
    then show ?thesis
      using m0 m1
      by (simp add: sm ss ld master_mode_def Let_def)
  next
    case False
    then show ?thesis
      using m0 m1
      by (simp add: sm ss ld standalone_mode_def Let_def)
  qed
qed

theorem role_marker_guard_witness:
  "server_main 4294967295
      \<lparr>db_filenames = [''a.db''], create_store = False, force_create = False,
       shutdown_after_creation = False, import_config_file = [],
       replication_config_active = False, replication_master_active = False,
       force_unslavify = False, port = 11211, replication_master_listen_port = 11319\<rparr>
      \<lparr>file_exists = (\<lambda>f. True), stored_master_id = 7, port_in_use = (\<lambda>p. False)\<rparr>
     = ([Log_disk_info, Open_metadata_store, Open_store, Get_replication_master_id],
        Exited Former_slave_as_standalone)
   \<and> server_main 4294967295
      \<lparr>db_filenames = [''a.db''], create_store = False, force_create = False,
       shutdown_after_creation = False, import_config_file = [],
       replication_config_active = False, replication_master_active = True,
       force_unslavify = False, port = 11211, replication_master_listen_port = 11319\<rparr>
      \<lparr>file_exists = (\<lambda>f. True), stored_master_id = 7, port_in_use = (\<lambda>p. False)\<rparr>
     = ([Log_disk_info, Open_metadata_store, Open_store, Listen 11211,
         Get_replication_master_id], Exited Former_slave_as_master)
   \<and> snd (server_main 4294967295
      \<lparr>db_filenames = [''a.db''], create_store = False, force_create = False,
       shutdown_after_creation = False, import_config_file = [],
       replication_config_active = False, replication_master_active = True,
       force_unslavify = True, port = 11211, replication_master_listen_port = 11319\<rparr>
      \<lparr>file_exists = (\<lambda>f. True), stored_master_id = 7, port_in_use = (\<lambda>p. False)\<rparr>)
     = Returned
   \<and> snd (server_main 4294967295
      \<lparr>db_filenames = [''a.db''], create_store = False, force_create = False,
       shutdown_after_creation = False, import_config_file = [],
       replication_config_active = False, replication_master_active = False,
       force_unslavify = True, port = 11211, replication_master_listen_port = 11319\<rparr>
      \<lparr>file_exists = (\<lambda>f. True), stored_master_id = 7, port_in_use = (\<lambda>p. False)\<rparr>)
     = Returned"
proof -
  let ?c1 = "\<lparr>db_filenames = [''a.db''], create_store = False, force_create = False,
       shutdown_after_creation = False, import_config_file = [],
       replication_config_active = False, replication_master_active = False,
       force_unslavify = False, port = 11211, replication_master_listen_port = 11319\<rparr>"
  let ?c2 = "\<lparr>db_filenames = [''a.db''], create_store = False, force_create = False,
       shutdown_after_creation = False, import_config_file = [],
       replication_config_active = False, replication_master_active = True,
       force_unslavify = False, port = 11211, replication_master_listen_port = 11319\<rparr>"
  let ?c3 = "\<lparr>db_filenames = [''a.db''], create_store = False, force_create = False,
       shutdown_after_creation = False, import_config_file = [],
       replication_config_active = False, replication_master_active = True,
       force_unslavify = True, port = 11211, replication_master_listen_port = 11319\<rparr>"
  let ?c4 = "\<lparr>db_filenames = [''a.db''], create_store = False, force_create = False,
       shutdown_after_creation = False, import_config_file = [],
       replication_config_active = False, replication_master_active = False,
       force_unslavify = True, port = 11211, replication_master_listen_port = 11319\<rparr>"
  let ?e = "\<lparr>file_exists = (\<lambda>f :: string. True), stored_master_id = 7 :: 32 word,
       port_in_use = (\<lambda>p :: nat. False)\<rparr>"
  let ?ld = "[Log_disk_info, Open_metadata_store, Open_store]"
  have k1: "overwrite_check ?c1 ?e = Inr False" by (simp add: overwrite_check_def)
  have k2: "overwrite_check ?c2 ?e = Inr False" by (simp add: overwrite_check_def)
  have k3: "overwrite_check ?c3 ?e = Inr False" by (simp add: overwrite_check_def)
  have k4: "overwrite_check ?c4 ?e = Inr False" by (simp add: overwrite_check_def)
  have a: "server_main 4294967295 ?c1 ?e
     = (?ld @ [Get_replication_master_id], Exited Former_slave_as_standalone)"
    using role_marker_guard [OF k1, where NOT_A_SLAVE = 4294967295 and loaded = ?ld] by simp
  have b: "server_main 4294967295 ?c2 ?e
     = (?ld @ [Listen 11211, Get_replication_master_id], Exited Former_slave_as_master)"
    using role_marker_guard [OF k2, where NOT_A_SLAVE = 4294967295 and loaded = ?ld] by simp
  have c: "snd (server_main 4294967295 ?c3 ?e) = Returned"
    using role_marker_guard [OF k3, where NOT_A_SLAVE = 4294967295 and loaded = ?ld] by simp
  have d: "snd (server_main 4294967295 ?c4 ?e) = Returned"
    using role_marker_guard [OF k4, where NOT_A_SLAVE = 4294967295 and loaded = ?ld] by simp
  from a b c d show ?thesis by simp
qed

text \<open>
  Claim C4 as stated fails in master mode when the port of the memcache listener is
  taken: the listener is built before the id is read, its exception is caught, and
  \<open>server_main\<close> returns through the address-in-use path, with no user error, for a
  store whose id reads 7 and without \<open>force_unslavify\<close>. With \<open>force_unslavify\<close> the
  same start ends the same way, and the id is not set to \<open>NOT_A_SLAVE\<close>.
\<close>

theorem master_port_taken_no_user_error:
  "server_main 4294967295
      \<lparr>db_filenames = [''a.db''], create_store = False, force_create = False,
       shutdown_after_creation = False, import_config_file = [],
       replication_config_active = False, replication_master_active = True,
       force_unslavify = False, port = 11211, replication_master_listen_port = 11319\<rparr>
      \<lparr>file_exists = (\<lambda>f. True), stored_master_id = 7, port_in_use = (\<lambda>p. p = 11211)\<rparr>
     = ([Log_disk_info, Open_metadata_store, Open_store, Log_address_in_use,
         Thread_pool_shutdown], Returned)
   \<and> server_main 4294967295
      \<lparr>db_filenames = [''a.db''], create_store = False, force_create = False,
       shutdown_after_creation = False, import_config_file = [],
       replication_config_active = False, replication_master_active = True,
       force_unslavify = True, port = 11211, replication_master_listen_port = 11319\<rparr>
      \<lparr>file_exists = (\<lambda>f. True), stored_master_id = 7, port_in_use = (\<lambda>p. p = 11211)\<rparr>
     = ([Log_disk_info, Open_metadata_store, Open_store, Log_address_in_use,
         Thread_pool_shutdown], Returned)"
  by (simp add: server_main_def overwrite_check_def start_stores_def master_mode_def)

section \<open>Properties of the gate\<close>

lemma gate_step_balance:
  "gate_step g ev = Some (r, g') \<Longrightarrow>
     in_flight g + admitted [r] = in_flight g' + has_left [r]"
  by (auto simp add: gate_step_def admitted_def has_left_def split: gate_event.splits if_splits)

lemma gate_run_balance:
  "gate_run g evs = Some (rs, g') \<Longrightarrow> in_flight g + admitted rs = in_flight g' + has_left rs"
proof (induction evs arbitrary: g rs)
  case Nil
  then show ?case by (simp add: admitted_def has_left_def)
next
  case (Cons ev evs)
  from Cons.prems obtain r g1 rs1 where
    s: "gate_step g ev = Some (r, g1)" and r: "gate_run g1 evs = Some (rs1, g')" and rs: "rs = r # rs1"
    by (auto split: option.splits)
  from gate_step_balance [OF s] Cons.IH [OF r] show ?case
    by (simp add: rs admitted_def has_left_def split: if_splits)
qed

lemma gate_run_snoc:
  "gate_run g (evs @ [ev]) =
     (case gate_run g evs of
        None \<Rightarrow> None
      | Some (rs, g1) \<Rightarrow>
          (case gate_step g1 ev of None \<Rightarrow> None | Some (r, g2) \<Rightarrow> Some (rs @ [r], g2)))"
  by (induction evs arbitrary: g) (auto split: option.splits)

lemma gate_step_completes:
  "gate_step g ev = Some (r, g') \<Longrightarrow> completes_exit r \<Longrightarrow> in_flight g' = 0"
  by (auto simp add: gate_step_def completes_exit_def split: gate_event.splits if_splits)

lemma gate_closed_rejects:
  "gate_run g evs = Some (rs, g') \<Longrightarrow> state g = CLOSED \<Longrightarrow> Open_scope_begin \<notin> set evs \<Longrightarrow>
     state g' = CLOSED \<and> Admitted \<notin> set rs
     \<and> (\<forall>(ev, r) \<in> set (zip evs rs). ev = Enter \<longrightarrow> r = Gate_closed)"
proof (induction evs arbitrary: g rs)
  case Nil
  then show ?case by simp
next
  case (Cons ev evs)
  from Cons.prems(1) obtain r g1 rs1 where
    s: "gate_step g ev = Some (r, g1)" and r: "gate_run g1 evs = Some (rs1, g')" and rs: "rs = r # rs1"
    by (auto split: option.splits)
  from s Cons.prems(2,3) have g1: "state g1 = CLOSED" and na: "r \<noteq> Admitted"
    and e: "ev = Enter \<longrightarrow> r = Gate_closed"
    by (auto simp add: gate_step_def split: gate_event.splits if_splits)
  from Cons.prems(3) have "Open_scope_begin \<notin> set evs" by simp
  from Cons.IH [OF r g1 this] na e show ?case by (simp add: rs)
qed

text \<open>
  Claim C3, for the gate as the specification describes it. From a closed gate, as long
  as no open scope begins, the gate stays closed and every \<open>enter()\<close> is rejected,
  whatever else happens in between. In every interleaving of calls from the initial
  gate, when the exit of an open scope completes, at once or with a \<open>leave()\<close>, no
  operation is in flight and as many operations have left as were admitted. The exit
  itself takes no operation off the count.
\<close>

theorem gate_admission:
  "(gate_run g evs = Some (rs, g') \<and> state g = CLOSED \<and> Open_scope_begin \<notin> set evs \<longrightarrow>
      state g' = CLOSED \<and> Admitted \<notin> set rs
      \<and> (\<forall>(ev, r) \<in> set (zip evs rs). ev = Enter \<longrightarrow> r = Gate_closed))
   \<and> (gate_run gate_init evs = Some (rs, g') \<and> rs \<noteq> [] \<and> completes_exit (last rs) \<longrightarrow>
      in_flight g' = 0 \<and> has_left rs = admitted rs)
   \<and> (gate_step g Open_scope_exit = Some (r, g1) \<longrightarrow> in_flight g1 = in_flight g)"
proof -
  have p1: "state g' = CLOSED \<and> Admitted \<notin> set rs
      \<and> (\<forall>(ev, r) \<in> set (zip evs rs). ev = Enter \<longrightarrow> r = Gate_closed)"
    if "gate_run g evs = Some (rs, g') \<and> state g = CLOSED \<and> Open_scope_begin \<notin> set evs"
    using that gate_closed_rejects [of g evs rs g'] by blast
  have p2: "in_flight g' = 0 \<and> has_left rs = admitted rs"
    if a: "gate_run gate_init evs = Some (rs, g') \<and> rs \<noteq> [] \<and> completes_exit (last rs)"
  proof -
    from a have run: "gate_run gate_init evs = Some (rs, g')" and ne: "rs \<noteq> []"
      and c: "completes_exit (last rs)" by simp_all
    from run ne have "evs \<noteq> []" by auto
    then obtain evs0 ev where evs: "evs = evs0 @ [ev]" by (metis rev_exhaust)
    from run obtain rs0 g0 r0 where
      r0: "gate_run gate_init evs0 = Some (rs0, g0)" and s: "gate_step g0 ev = Some (r0, g')"
      and rs: "rs = rs0 @ [r0]"
      by (auto simp add: evs gate_run_snoc split: option.splits)
    from c rs have "completes_exit r0" by simp
    from gate_step_completes [OF s this] have z: "in_flight g' = 0" .
    from gate_run_balance [OF run] z have "has_left rs = admitted rs"
      by (simp add: gate_init_def)
    with z show ?thesis by simp
  qed
  have p3: "in_flight g1 = in_flight g" if "gate_step g Open_scope_exit = Some (r, g1)"
    using that by (auto simp add: gate_step_def split: if_splits)
  from p1 p2 p3 show ?thesis by blast
qed

theorem gate_admission_witness:
  "gate_run gate_init [Open_scope_begin, Enter, Enter, Leave, Open_scope_exit, Enter, Leave]
     = Some ([Opened, Admitted, Admitted, Departed, Exit_blocked, Gate_closed, Departed_and_released],
             \<lparr>state = CLOSED, in_flight = 0, close_pending = False\<rparr>)
   \<and> has_left [Opened, Admitted, Admitted, Departed, Exit_blocked, Gate_closed, Departed_and_released]
     = admitted [Opened, Admitted, Admitted, Departed, Exit_blocked, Gate_closed, Departed_and_released]
   \<and> gate_run \<lparr>state = CLOSED, in_flight = 1, close_pending = True\<rparr> [Enter, Leave]
     = Some ([Gate_closed, Departed_and_released], \<lparr>state = CLOSED, in_flight = 0, close_pending = False\<rparr>)
   \<and> Admitted \<notin> set [Gate_closed, Departed_and_released]
   \<and> gate_step \<lparr>state = OPEN, in_flight = 2, close_pending = False\<rparr> Open_scope_exit
     = Some (Exit_blocked, \<lparr>state = CLOSED, in_flight = 2, close_pending = True\<rparr>)
   \<and> in_flight \<lparr>state = CLOSED, in_flight = 2, close_pending = True\<rparr> = 2"
proof -
  let ?evs = "[Open_scope_begin, Enter, Enter, Leave, Open_scope_exit, Enter, Leave]"
  let ?rs = "[Opened, Admitted, Admitted, Departed, Exit_blocked, Gate_closed, Departed_and_released]"
  let ?g = "\<lparr>state = CLOSED, in_flight = 0, close_pending = False\<rparr>"
  let ?h = "\<lparr>state = CLOSED, in_flight = 1, close_pending = True\<rparr>"
  have r1: "gate_run gate_init ?evs = Some (?rs, ?g)"
    by (simp add: gate_step_def gate_init_def)
  have r2: "gate_run ?h [Enter, Leave] = Some ([Gate_closed, Departed_and_released], ?g)"
    by (simp add: gate_step_def)
  have r3: "gate_step \<lparr>state = OPEN, in_flight = 2, close_pending = False\<rparr> Open_scope_exit
     = Some (Exit_blocked, \<lparr>state = CLOSED, in_flight = 2, close_pending = True\<rparr>)"
    by (simp add: gate_step_def)
  have c: "completes_exit (last ?rs)" by (simp add: completes_exit_def)
  note t1 = gate_admission [where g = ?h and evs = "[Enter, Leave]"
       and rs = "[Gate_closed, Departed_and_released]" and g' = ?g
       and r = Exit_blocked and ?g1.0 = "\<lparr>state = CLOSED, in_flight = 2, close_pending = True\<rparr>"]
  note t2 = gate_admission [where g = "\<lparr>state = OPEN, in_flight = 2, close_pending = False\<rparr>"
       and evs = ?evs and rs = ?rs and g' = ?g
       and r = Exit_blocked and ?g1.0 = "\<lparr>state = CLOSED, in_flight = 2, close_pending = True\<rparr>"]
  from t1 r2 have a: "Admitted \<notin> set [Gate_closed, Departed_and_released]" by simp
  from t2 r1 c have b: "has_left ?rs = admitted ?rs" by simp
  from t2 r3 have d: "in_flight \<lparr>state = CLOSED, in_flight = 2, close_pending = True\<rparr> = 2" by simp
  from r1 r2 r3 a b d show ?thesis by (simp only: simp_thms)
qed

end
